theory Spec2Isabelle
  imports Complex_Main "HOL-Library.AList"
begin

section \<open>The debt-payoff snowball scheduler\<close>

text \<open>
  This theory embeds \<^verbatim>\<open>runSnowball\<close> (the function the specification calls
  \<^verbatim>\<open>simulate\<close>) of the debt page and proves the properties the specification states
  about it.

  Numbers. A JavaScript \<^verbatim>\<open>number\<close> is modelled as an exact rational: there is no
  rounding, no \<^verbatim>\<open>NaN\<close> and no infinity. The concrete schedules computed below use
  values that doubles represent exactly, so they are the schedules the program computes. The
  general theorems are about what does not depend on rounding: the months and the keys of the
  records, the order of balances (a payment between 0 and the balance neither raises the
  balance nor makes it negative, in doubles as in exact arithmetic), and months in which every
  amount paid is 0. Nothing is proved about the size of a sum of payments, which in doubles
  depends on rounding. The parameter \<^verbatim>\<open>maxMonths\<close> is a count of months and is a
  natural number.

  Objects. \<^verbatim>\<open>active\<close> is an array of freshly created objects, and
  \<^verbatim>\<open>stillActive\<close> is a filtered array of references to the same objects: a
  payment made through \<^verbatim>\<open>stillActive\<close> is seen in \<^verbatim>\<open>active\<close> the month
  after. The model keeps \<^verbatim>\<open>active\<close> as the list of the objects and
  \<^verbatim>\<open>stillActive\<close> as the list of their positions in \<^verbatim>\<open>active\<close>.

  Records. \<^verbatim>\<open>payments\<close> and \<^verbatim>\<open>remainingById\<close> are plain objects
  (\<^verbatim>\<open>{}\<close>) used as dictionaries. Their own properties are an association list in
  insertion order: assigning to a key that is present replaces its value in place, assigning
  to a new key appends it, which is \<^const>\<open>AList.update\<close>; \<^verbatim>\<open>Object.values\<close> is the
  list of the second components. (JavaScript lists keys that look like array indices first, in
  numeric order; the ids that the mock API creates, \<^verbatim>\<open>acc-...\<close>, are not of this form,
  and no general theorem below depends on the order of the entries of one record.) A plain
  object inherits the members of \<^verbatim>\<open>Object.prototype\<close>, and an id is an arbitrary
  string, so two things are modelled with the own properties: reading a key that is not an own
  property but the name of an inherited member gives that member, not
  \<^verbatim>\<open>undefined\<close>; and assigning a number or a string to the key
  \<^verbatim>\<open>__proto__\<close> calls the inherited setter, which ignores it, so no own property is
  created.
\<close>

subsection \<open>Data model\<close>

text \<open>
  \<^verbatim>\<open>DebtItem\<close>: of its fields \<^verbatim>\<open>runSnowball\<close> reads \<^verbatim>\<open>id\<close>,
  \<^verbatim>\<open>minPayment\<close> and \<^verbatim>\<open>debtAmount\<close>; the display fields (name, currency,
  balance, credit limits) are left out. The field \<^verbatim>\<open>id\<close> is named \<open>debt_id\<close>, as
  \<open>id\<close> is the identity function of HOL.
\<close>

record DebtItem =
  debt_id :: string
  minPayment :: rat
  debtAmount :: rat

text \<open>The working copy \<^verbatim>\<open>{ ...d, remaining: d.debtAmount }\<close>.\<close>

record ActiveDebt = DebtItem +
  remaining :: rat

text \<open>
  A value stored in \<^verbatim>\<open>payments\<close>, and \<^verbatim>\<open>totalPaid\<close>. The type of the source,
  \<^verbatim>\<open>number\<close>, is not checked when the program runs: when the id of a debt is the name
  of a member of \<^verbatim>\<open>Object.prototype\<close>, \<^verbatim>\<open>payments[debt.id] || 0\<close> is that
  member (a function, or the prototype object itself), and adding \<^verbatim>\<open>paid\<close> to it
  gives a string. \<open>NonNumber\<close> stands for every such value: a function, an object or a
  string that is not empty. All that the code does with one is to test it for truth (it is
  truthy) and to add to it (the result is a string again).
\<close>

datatype jsvalue = Num rat | NonNumber

record SnowballMonth =
  monthIndex :: nat
  totalPaid :: jsvalue
  payments :: "(string \<times> jsvalue) list"
  remainingById :: "(string \<times> rat) list"

subsection \<open>Operations\<close>

text \<open>The literal \<^verbatim>\<open>0.000001\<close> of the two comparisons in the snowball pass.\<close>

definition epsilon :: rat where
  "epsilon = 1 / 1000000"

text \<open>
  \<^verbatim>\<open>x || 0\<close> on a number: \<^verbatim>\<open>0\<close> is falsy and gives the right operand, every
  other number gives itself.
\<close>

definition orZero :: "rat \<Rightarrow> rat" where
  "orZero x = (if x = 0 then 0 else x)"

text \<open>
  The members of \<^verbatim>\<open>Object.prototype\<close> that are functions (ECMAScript, with its annex
  for web browsers). The twelfth member is the accessor \<^verbatim>\<open>__proto__\<close>.
\<close>

definition prototypeMethods :: "string list" where
  "prototypeMethods =
     [''constructor'', ''hasOwnProperty'', ''isPrototypeOf'', ''propertyIsEnumerable'',
      ''toLocaleString'', ''toString'', ''valueOf'', ''__defineGetter__'', ''__defineSetter__'',
      ''__lookupGetter__'', ''__lookupSetter__'']"

text \<open>
  \<^verbatim>\<open>a + b\<close>: the sum of two numbers; with an operand that is not a number, the
  concatenation of two strings.
\<close>

definition jsPlus :: "jsvalue \<Rightarrow> jsvalue \<Rightarrow> jsvalue" where
  "jsPlus a b = (case a of
       Num x \<Rightarrow> (case b of Num y \<Rightarrow> Num (x + y) | NonNumber \<Rightarrow> NonNumber)
     | NonNumber \<Rightarrow> NonNumber)"

text \<open>
  \<^verbatim>\<open>rec[k] || 0\<close> on a plain object. An own property is read; a key that is not an
  own property reads the inherited member when \<open>k\<close> names one (the prototype object for
  \<^verbatim>\<open>__proto__\<close>, a function otherwise: both truthy), and \<^verbatim>\<open>undefined\<close>, which
  is falsy, for every other key.
\<close>

definition getOrZero :: "(string \<times> jsvalue) list \<Rightarrow> string \<Rightarrow> jsvalue" where
  "getOrZero rec k =
     (case map_of rec k of
        Some v \<Rightarrow> (case v of Num x \<Rightarrow> Num (orZero x) | NonNumber \<Rightarrow> NonNumber)
      | None \<Rightarrow> (if k = ''__proto__'' \<or> k \<in> set prototypeMethods then NonNumber else Num 0))"

text \<open>
  \<^verbatim>\<open>rec[k] = v\<close> on a plain object, for a value \<open>v\<close> that is a number or a string.
  With the key \<^verbatim>\<open>__proto__\<close> the assignment calls the setter of
  \<^verbatim>\<open>Object.prototype\<close>, which does nothing for such a value: the object gets no own
  property. Every other key becomes (or stays) an own property: the inherited functions are
  writable data properties, so assigning to their names creates own properties as well.
\<close>

definition setProperty :: "string \<Rightarrow> 'v \<Rightarrow> (string \<times> 'v) list \<Rightarrow> (string \<times> 'v) list" where
  "setProperty k v rec = (if k = ''__proto__'' then rec else AList.update k v rec)"

definition toActive :: "DebtItem \<Rightarrow> ActiveDebt" where
  "toActive d = \<lparr>debt_id = debt_id d, minPayment = minPayment d, debtAmount = debtAmount d,
     remaining = debtAmount d\<rparr>"

text \<open>\<^verbatim>\<open>active.filter((d) => d.remaining > 0)\<close>, as positions in \<^verbatim>\<open>active\<close>.\<close>

definition stillActive :: "ActiveDebt list \<Rightarrow> nat list" where
  "stillActive active = filter (\<lambda>i. 0 < remaining (active ! i)) [0..<length active]"

text \<open>
  The state of one month: the array \<^verbatim>\<open>active\<close> (the objects that
  \<^verbatim>\<open>stillActive\<close> refers to) with the records \<^verbatim>\<open>payments\<close> and
  \<^verbatim>\<open>remainingById\<close> of the month.
\<close>

type_synonym monthState =
  "ActiveDebt list \<times> (string \<times> jsvalue) list \<times> (string \<times> rat) list"

text \<open>
  The three statements that both passes run once \<^verbatim>\<open>paid\<close> is known, for the object
  at position \<open>i\<close>:
  \<^verbatim>\<open>debt.remaining -= paid; payments[debt.id] = (payments[debt.id] || 0) + paid;
  remainingById[debt.id] = debt.remaining\<close>.
\<close>

definition applyPayment :: "nat \<Rightarrow> rat \<Rightarrow> monthState \<Rightarrow> monthState" where
  "applyPayment i paid st =
     (case st of (active, pays, rems) \<Rightarrow>
        (let debt = active ! i;
             debt' = debt\<lparr>remaining := remaining debt - paid\<rparr>
         in (active[i := debt'],
             setProperty (debt_id debt') (jsPlus (getOrZero pays (debt_id debt')) (Num paid)) pays,
             setProperty (debt_id debt') (remaining debt') rems)))"

text \<open>The loop \<^verbatim>\<open>for (const debt of stillActive)\<close> that pays the minimums.\<close>

fun payMinimums :: "nat list \<Rightarrow> monthState \<Rightarrow> monthState" where
  "payMinimums [] st = st"
| "payMinimums (i # rest) st =
     (case st of (active, pays, rems) \<Rightarrow>
        (let debt = active ! i;
             minPay = max 0 (orZero (minPayment debt));
             paid = min (remaining debt) minPay
         in payMinimums rest (applyPayment i paid st)))"

text \<open>
  The loop \<^verbatim>\<open>while (extra > 0.000001)\<close> of the snowball pass. The target is the first
  element of the candidates sorted by \<^verbatim>\<open>remaining\<close>; \<^verbatim>\<open>Array.prototype.sort\<close>
  is stable, as \<^const>\<open>sort_key\<close> is. No candidate is the \<^verbatim>\<open>break\<close>.
\<close>

function applySnowball :: "nat list \<Rightarrow> rat \<Rightarrow> monthState \<Rightarrow> monthState" where
  "applySnowball sa extra st =
     (case st of (active, pays, rems) \<Rightarrow>
        (if epsilon < extra then
           (case sort_key (\<lambda>i. remaining (active ! i))
                   (filter (\<lambda>i. epsilon < remaining (active ! i)) sa) of
              [] \<Rightarrow> st
            | t # _ \<Rightarrow>
                (let target = active ! t;
                     paid = min (remaining target) extra
                 in applySnowball sa (extra - paid) (applyPayment t paid st)))
         else st))"
  by pat_completeness auto

termination
proof (relation "measure (\<lambda>(sa, extra, st). nat \<lfloor>extra / epsilon\<rfloor>)", goal_cases)
  case 1
  show ?case by simp
next
  case (2 sa extra st active pr pays rems t rest target paid)
  have e: "0 < epsilon" by (simp add: epsilon_def)
  have "t \<in> set (sort_key (\<lambda>i. remaining (active ! i))
                (filter (\<lambda>i. epsilon < remaining (active ! i)) sa))"
    using "2" by (metis list.set_intros(1))
  then have "t \<in> set (filter (\<lambda>i. epsilon < remaining (active ! i)) sa)"
    by (simp only: set_sort)
  then have "epsilon < remaining (active ! t)" by simp
  then have p: "epsilon < paid" using "2" by simp
  have q: "paid \<le> extra" using "2" by simp
  have "(extra - paid) / epsilon + 1 \<le> extra / epsilon"
    using p e by (simp add: field_simps)
  then have "\<lfloor>(extra - paid) / epsilon + 1\<rfloor> \<le> \<lfloor>extra / epsilon\<rfloor>"
    by (rule floor_mono)
  then have "\<lfloor>(extra - paid) / epsilon\<rfloor> + 1 \<le> \<lfloor>extra / epsilon\<rfloor>"
    by simp
  moreover have "0 \<le> \<lfloor>(extra - paid) / epsilon\<rfloor>"
    using q e by simp
  ultimately have "nat \<lfloor>(extra - paid) / epsilon\<rfloor> < nat \<lfloor>extra / epsilon\<rfloor>"
    by linarith
  then show ?case by simp
qed

declare applySnowball.simps [simp del]

text \<open>
  The body of the loop over the months, from \<^verbatim>\<open>requiredMin\<close> to the
  \<^verbatim>\<open>SnowballMonth\<close> that is pushed: it returns the month with the array after the
  payments. \<^verbatim>\<open>stillActive\<close> is the argument \<open>sa\<close>.
\<close>

definition simulateMonth ::
  "rat \<Rightarrow> nat \<Rightarrow> nat list \<Rightarrow> ActiveDebt list \<Rightarrow> SnowballMonth \<times> ActiveDebt list" where
  "simulateMonth totalMonthly mIndex sa active =
     (let requiredMin = foldl (\<lambda>sum i. sum + orZero (minPayment (active ! i))) 0 sa;
          extra = max 0 (totalMonthly - requiredMin)
      in case applySnowball sa extra (payMinimums sa (active, [], [])) of
           (active2, pays2, rems2) \<Rightarrow>
             (\<lparr>monthIndex = mIndex,
               totalPaid = foldl (\<lambda>sum v. jsPlus sum v) (Num 0) (map snd pays2),
               payments = pays2,
               remainingById = rems2\<rparr>,
              active2))"

text \<open>
  The loop \<^verbatim>\<open>for (let monthIndex = 1; monthIndex <= maxMonths; monthIndex += 1)\<close>,
  with its two \<^verbatim>\<open>break\<close>s: no debt is still active (before anything is pushed), and
  every still active debt is at most \<^verbatim>\<open>0.000001\<close> (after the month is pushed).
\<close>

function monthLoop ::
  "rat \<Rightarrow> nat \<Rightarrow> nat \<Rightarrow> ActiveDebt list \<Rightarrow> SnowballMonth list \<Rightarrow> SnowballMonth list" where
  "monthLoop totalMonthly maxMonths mIndex active months =
     (if mIndex \<le> maxMonths then
        (let sa = stillActive active
         in if length sa = 0 then months
            else (case simulateMonth totalMonthly mIndex sa active of
                    (month, active') \<Rightarrow>
                      (let months' = months @ [month]
                       in if list_all (\<lambda>i. remaining (active' ! i) \<le> epsilon) sa then months'
                          else monthLoop totalMonthly maxMonths (mIndex + 1) active' months')))
      else months)"
  by pat_completeness auto

termination
  by (relation "measure (\<lambda>(totalMonthly, maxMonths, mIndex, active, months).
        Suc maxMonths - mIndex)") auto

declare monthLoop.simps [simp del]

definition runSnowball :: "DebtItem list \<Rightarrow> rat \<Rightarrow> nat \<Rightarrow> SnowballMonth list" where
  "runSnowball debts extraPayment maxMonths =
     (let active = map toActive (filter (\<lambda>d. 0 < debtAmount d) debts)
      in if length active = 0 then []
         else (let totalMonthly =
                     foldl (\<lambda>sum d. sum + orZero (minPayment d)) 0 active + extraPayment
               in monthLoop totalMonthly maxMonths 1 active []))"

text \<open>The default value of the parameter \<^verbatim>\<open>maxMonths\<close>.\<close>

definition defaultMaxMonths :: nat where
  "defaultMaxMonths = 600"

subsection \<open>The objects on a heap\<close>

text \<open>
  The definitions above pass the debts by value. To say that a call leaves the caller's
  objects alone, the same code is translated once more with every object on a heap: a list of
  objects, an object's address being its position. An object has the fields of a
  \<^verbatim>\<open>DebtItem\<close> and may have the property \<^verbatim>\<open>remaining\<close>. The array
  \<^verbatim>\<open>debts\<close> is a list of addresses (it is only read: \<^verbatim>\<open>filter\<close> and \<^verbatim>\<open>map\<close>
  build new arrays), \<^verbatim>\<open>{ ...d, remaining: d.debtAmount }\<close> allocates a new object at the end
  of the heap, and \<^verbatim>\<open>active\<close> and \<^verbatim>\<open>stillActive\<close> hold addresses.
\<close>

record HeapDebt = DebtItem +
  remainingProp :: "rat option"

type_synonym heap = "HeapDebt list"

text \<open>
  Reading \<^verbatim>\<open>remaining\<close>. The objects of \<^verbatim>\<open>active\<close> all have the property (their
  type says so, and \<open>runSnowball_heap_refines\<close> below confirms it); for an object without it the
  model reads 0 where JavaScript reads \<^verbatim>\<open>undefined\<close>.
\<close>

definition readRemaining :: "HeapDebt \<Rightarrow> rat" where
  "readRemaining c = (case remainingProp c of None \<Rightarrow> 0 | Some r \<Rightarrow> r)"

type_synonym heapState = "heap \<times> (string \<times> jsvalue) list \<times> (string \<times> rat) list"

definition applyPayment_heap :: "nat \<Rightarrow> rat \<Rightarrow> heapState \<Rightarrow> heapState" where
  "applyPayment_heap a paid st =
     (case st of (h, pays, rems) \<Rightarrow>
        (let debt = h ! a;
             debt' = debt\<lparr>remainingProp := Some (readRemaining debt - paid)\<rparr>
         in (h[a := debt'],
             setProperty (debt_id debt') (jsPlus (getOrZero pays (debt_id debt')) (Num paid)) pays,
             setProperty (debt_id debt') (readRemaining debt') rems)))"

fun payMinimums_heap :: "nat list \<Rightarrow> heapState \<Rightarrow> heapState" where
  "payMinimums_heap [] st = st"
| "payMinimums_heap (a # rest) st =
     (case st of (h, pays, rems) \<Rightarrow>
        (let debt = h ! a;
             minPay = max 0 (orZero (minPayment debt));
             paid = min (readRemaining debt) minPay
         in payMinimums_heap rest (applyPayment_heap a paid st)))"

function applySnowball_heap :: "nat list \<Rightarrow> rat \<Rightarrow> heapState \<Rightarrow> heapState" where
  "applySnowball_heap sa extra st =
     (case st of (h, pays, rems) \<Rightarrow>
        (if epsilon < extra then
           (case sort_key (\<lambda>a. readRemaining (h ! a))
                   (filter (\<lambda>a. epsilon < readRemaining (h ! a)) sa) of
              [] \<Rightarrow> st
            | t # _ \<Rightarrow>
                (let target = h ! t;
                     paid = min (readRemaining target) extra
                 in applySnowball_heap sa (extra - paid) (applyPayment_heap t paid st)))
         else st))"
  by pat_completeness auto

termination
proof (relation "measure (\<lambda>(sa, extra, st). nat \<lfloor>extra / epsilon\<rfloor>)", goal_cases)
  case 1
  show ?case by simp
next
  case (2 sa extra st h pr pays rems t rest target paid)
  have e: "0 < epsilon" by (simp add: epsilon_def)
  have "t \<in> set (sort_key (\<lambda>a. readRemaining (h ! a))
                (filter (\<lambda>a. epsilon < readRemaining (h ! a)) sa))"
    using "2" by (metis list.set_intros(1))
  then have "t \<in> set (filter (\<lambda>a. epsilon < readRemaining (h ! a)) sa)"
    by (simp only: set_sort)
  then have "epsilon < readRemaining (h ! t)" by simp
  then have p: "epsilon < paid" using "2" by simp
  have q: "paid \<le> extra" using "2" by simp
  have "(extra - paid) / epsilon + 1 \<le> extra / epsilon"
    using p e by (simp add: field_simps)
  then have "\<lfloor>(extra - paid) / epsilon + 1\<rfloor> \<le> \<lfloor>extra / epsilon\<rfloor>"
    by (rule floor_mono)
  then have "\<lfloor>(extra - paid) / epsilon\<rfloor> + 1 \<le> \<lfloor>extra / epsilon\<rfloor>"
    by simp
  moreover have "0 \<le> \<lfloor>(extra - paid) / epsilon\<rfloor>"
    using q e by simp
  ultimately have "nat \<lfloor>(extra - paid) / epsilon\<rfloor> < nat \<lfloor>extra / epsilon\<rfloor>"
    by linarith
  then show ?case by simp
qed

declare applySnowball_heap.simps [simp del]

definition simulateMonth_heap ::
  "rat \<Rightarrow> nat \<Rightarrow> nat list \<Rightarrow> heap \<Rightarrow> SnowballMonth \<times> heap" where
  "simulateMonth_heap totalMonthly mIndex sa h =
     (let requiredMin = foldl (\<lambda>sum a. sum + orZero (minPayment (h ! a))) 0 sa;
          extra = max 0 (totalMonthly - requiredMin)
      in case applySnowball_heap sa extra (payMinimums_heap sa (h, [], [])) of
           (h2, pays2, rems2) \<Rightarrow>
             (\<lparr>monthIndex = mIndex,
               totalPaid = foldl (\<lambda>sum v. jsPlus sum v) (Num 0) (map snd pays2),
               payments = pays2,
               remainingById = rems2\<rparr>,
              h2))"

function monthLoop_heap ::
  "rat \<Rightarrow> nat \<Rightarrow> nat \<Rightarrow> nat list \<Rightarrow> heap \<Rightarrow> SnowballMonth list \<Rightarrow> heap \<times> SnowballMonth list" where
  "monthLoop_heap totalMonthly maxMonths mIndex active h months =
     (if mIndex \<le> maxMonths then
        (let sa = filter (\<lambda>a. 0 < readRemaining (h ! a)) active
         in if length sa = 0 then (h, months)
            else (case simulateMonth_heap totalMonthly mIndex sa h of
                    (month, h') \<Rightarrow>
                      (let months' = months @ [month]
                       in if list_all (\<lambda>a. readRemaining (h' ! a) \<le> epsilon) sa
                          then (h', months')
                          else monthLoop_heap totalMonthly maxMonths (mIndex + 1) active h'
                                 months')))
      else (h, months))"
  by pat_completeness auto

termination
  by (relation "measure (\<lambda>(totalMonthly, maxMonths, mIndex, active, h, months).
        Suc maxMonths - mIndex)") auto

declare monthLoop_heap.simps [simp del]

text \<open>
  \<^verbatim>\<open>runSnowball\<close> on the heap: it returns the heap it leaves with the schedule. The copies
  are allocated in the order of \<^verbatim>\<open>map\<close>, at the addresses from \<open>length h\<close> on.
\<close>

definition runSnowball_heap ::
  "heap \<Rightarrow> nat list \<Rightarrow> rat \<Rightarrow> nat \<Rightarrow> heap \<times> SnowballMonth list" where
  "runSnowball_heap h debts extraPayment maxMonths =
     (let copies = map (\<lambda>a. (h ! a)\<lparr>remainingProp := Some (debtAmount (h ! a))\<rparr>)
                     (filter (\<lambda>a. 0 < debtAmount (h ! a)) debts);
          active = [length h..<length h + length copies];
          h1 = h @ copies
      in if length active = 0 then (h1, [])
         else (let totalMonthly =
                     foldl (\<lambda>sum a. sum + orZero (minPayment (h1 ! a))) 0 active + extraPayment
               in monthLoop_heap totalMonthly maxMonths 1 active h1 []))"

subsection \<open>Notions used in the proofs\<close>

text \<open>The array has the same length and every object keeps its id, minimum and amount.\<close>

definition sameDebts :: "ActiveDebt list \<Rightarrow> ActiveDebt list \<Rightarrow> bool" where
  "sameDebts a0 active \<longleftrightarrow>
     length active = length a0 \<and>
     (\<forall>j. debt_id (active ! j) = debt_id (a0 ! j) \<and>
          minPayment (active ! j) = minPayment (a0 ! j) \<and>
          debtAmount (active ! j) = debtAmount (a0 ! j))"

text \<open>Every \<^verbatim>\<open>remaining\<close> is non-negative and has not grown.\<close>

definition paidDown :: "ActiveDebt list \<Rightarrow> ActiveDebt list \<Rightarrow> bool" where
  "paidDown a0 active \<longleftrightarrow>
     (\<forall>j<length a0. 0 \<le> remaining (active ! j) \<and> remaining (active ! j) \<le> remaining (a0 ! j))"

text \<open>An object that is not still active is as it was.\<close>

definition untouched :: "nat list \<Rightarrow> ActiveDebt list \<Rightarrow> ActiveDebt list \<Rightarrow> bool" where
  "untouched sa a0 active \<longleftrightarrow> (\<forall>j. j \<notin> set sa \<longrightarrow> active ! j = a0 ! j)"

text \<open>Every entry of \<^verbatim>\<open>remainingById\<close> is the current \<^verbatim>\<open>remaining\<close> of a still active debt with that id.\<close>

definition recorded :: "nat list \<Rightarrow> ActiveDebt list \<Rightarrow> (string \<times> rat) list \<Rightarrow> bool" where
  "recorded sa active rems \<longleftrightarrow>
     (\<forall>k r. map_of rems k = Some r \<longrightarrow>
        (\<exists>j\<in>set sa. debt_id (active ! j) = k \<and> remaining (active ! j) = r))"

text \<open>Every key of a record is the id of a still active debt, and none is \<^verbatim>\<open>__proto__\<close>.\<close>

definition keysWithin :: "nat list \<Rightarrow> ActiveDebt list \<Rightarrow> (string \<times> 'v) list \<Rightarrow> bool" where
  "keysWithin sa active rec \<longleftrightarrow>
     fst ` set rec \<subseteq> (\<lambda>i. debt_id (active ! i)) ` set sa - {''__proto__''}"

text \<open>The invariant of both passes of a month that starts with the array \<open>a0\<close>.\<close>

definition monthInv :: "ActiveDebt list \<Rightarrow> nat list \<Rightarrow> monthState \<Rightarrow> bool" where
  "monthInv a0 sa st \<longleftrightarrow>
     (case st of (active, pays, rems) \<Rightarrow>
        sameDebts a0 active \<and> paidDown a0 active \<and> untouched sa a0 active \<and>
        recorded sa active rems \<and> keysWithin sa active pays \<and> keysWithin sa active rems)"

text \<open>The array \<^verbatim>\<open>active\<close> as first built: the working set.\<close>

definition working :: "DebtItem list \<Rightarrow> ActiveDebt list" where
  "working debts = map toActive (filter (\<lambda>d. 0 < debtAmount d) debts)"

text \<open>From one month to the next no entry of \<^verbatim>\<open>remainingById\<close> grows.\<close>

definition nonIncreasing :: "SnowballMonth list \<Rightarrow> bool" where
  "nonIncreasing months \<longleftrightarrow>
     (\<forall>k x r r'. Suc k < length months \<and> map_of (remainingById (months ! k)) x = Some r \<and>
        map_of (remainingById (months ! Suc k)) x = Some r' \<longrightarrow> r' \<le> r)"

text \<open>The entries of the last month pushed bound the current \<^verbatim>\<open>remaining\<close> of their debts.\<close>

definition lastBounds :: "ActiveDebt list \<Rightarrow> ActiveDebt list \<Rightarrow> SnowballMonth list \<Rightarrow> bool" where
  "lastBounds w active months \<longleftrightarrow>
     (months \<noteq> [] \<longrightarrow>
        (\<forall>j<length w. \<forall>r. map_of (remainingById (last months)) (debt_id (w ! j)) = Some r \<longrightarrow>
           remaining (active ! j) \<le> r))"

text \<open>When all debts with an id other than \<^verbatim>\<open>__proto__\<close> are paid off, a month pushed so far has an entry of at most \<^verbatim>\<open>0.000001\<close> for that id.\<close>

definition settled :: "ActiveDebt list \<Rightarrow> ActiveDebt list \<Rightarrow> SnowballMonth list \<Rightarrow> bool" where
  "settled w active months \<longleftrightarrow>
     (\<forall>x. x \<noteq> ''__proto__'' \<and> (\<exists>j<length w. debt_id (w ! j) = x) \<and>
          (\<forall>j<length w. debt_id (w ! j) = x \<longrightarrow> remaining (active ! j) \<le> 0) \<longrightarrow>
          (\<exists>m\<in>set months. \<exists>r. map_of (remainingById m) x = Some r \<and> 0 \<le> r \<and> r \<le> epsilon))"

text \<open>The entries of the last month pushed are current values of \<^verbatim>\<open>remaining\<close>, and every debt that still has a balance has an entry there, unless its id is \<^verbatim>\<open>__proto__\<close>.\<close>

definition lastRecorded :: "ActiveDebt list \<Rightarrow> ActiveDebt list \<Rightarrow> SnowballMonth list \<Rightarrow> bool" where
  "lastRecorded w active months \<longleftrightarrow>
     (months \<noteq> [] \<longrightarrow>
        (\<forall>x r. map_of (remainingById (last months)) x = Some r \<longrightarrow>
           (\<exists>j<length w. remaining (active ! j) = r)) \<and>
        (\<forall>j<length w. 0 < remaining (active ! j) \<and> debt_id (w ! j) \<noteq> ''__proto__'' \<longrightarrow>
           debt_id (w ! j) \<in> fst ` set (remainingById (last months))))"

text \<open>What a schedule that ends before the cap shows.\<close>

definition paidOff :: "ActiveDebt list \<Rightarrow> SnowballMonth list \<Rightarrow> bool" where
  "paidOff w months \<longleftrightarrow>
     (\<forall>x\<in>debt_id ` set w. x \<noteq> ''__proto__'' \<longrightarrow>
        (\<exists>m\<in>set months. \<exists>r. map_of (remainingById m) x = Some r \<and> 0 \<le> r \<and> r \<le> epsilon)) \<and>
     months \<noteq> [] \<and>
     (\<forall>x r. map_of (remainingById (last months)) x = Some r \<longrightarrow> 0 \<le> r \<and> r \<le> epsilon)"

text \<open>Every payment recorded is 0, except under the name of a function of \<^verbatim>\<open>Object.prototype\<close>.\<close>

definition zeroPaid :: "(string \<times> jsvalue) list \<Rightarrow> bool" where
  "zeroPaid pays \<longleftrightarrow> (\<forall>(k, v)\<in>set pays. k \<in> set prototypeMethods \<or> v = Num 0)"

text \<open>A month in which nothing is paid.\<close>

definition zeroMonth :: "ActiveDebt list \<Rightarrow> SnowballMonth \<Rightarrow> bool" where
  "zeroMonth w m \<longleftrightarrow>
     ((\<forall>j<length w. debt_id (w ! j) \<notin> set prototypeMethods) \<longrightarrow> totalPaid m = Num 0) \<and>
     (\<forall>j<length w. debt_id (w ! j) \<notin> set prototypeMethods \<and> debt_id (w ! j) \<noteq> ''__proto__'' \<longrightarrow>
        map_of (payments m) (debt_id (w ! j)) = Some (Num 0)) \<and>
     (distinct (map debt_id w) \<longrightarrow>
        (\<forall>j<length w. debt_id (w ! j) \<noteq> ''__proto__'' \<longrightarrow>
           map_of (remainingById m) (debt_id (w ! j)) = Some (remaining (w ! j))))"

text \<open>The clamped input of the specification: a negative \<^verbatim>\<open>minPayment\<close> replaced by 0 (a negative \<^verbatim>\<open>extraPayment\<close> is replaced by \<open>max 0\<close>).\<close>

definition clampDebt :: "DebtItem \<Rightarrow> DebtItem" where
  "clampDebt d = d\<lparr>minPayment := max 0 (minPayment d)\<rparr>"

text \<open>The \<^verbatim>\<open>DebtItem\<close> that an object on the heap holds.\<close>

definition itemOf :: "HeapDebt \<Rightarrow> DebtItem" where
  "itemOf c = \<lparr>debt_id = debt_id c, minPayment = minPayment c, debtAmount = debtAmount c\<rparr>"

text \<open>A working copy as an object on the heap.\<close>

definition toHeap :: "ActiveDebt \<Rightarrow> HeapDebt" where
  "toHeap d = \<lparr>debt_id = debt_id d, minPayment = minPayment d, debtAmount = debtAmount d,
     remainingProp = Some (remaining d)\<rparr>"

text \<open>The heap \<open>h0\<close> followed by the working copies.\<close>

definition onHeap :: "heap \<Rightarrow> ActiveDebt list \<Rightarrow> heap" where
  "onHeap h0 active = h0 @ map toHeap active"

text \<open>The state of a month, with its array on the heap after \<open>h0\<close>.\<close>

definition liftState :: "heap \<Rightarrow> monthState \<Rightarrow> heapState" where
  "liftState h0 st = (case st of (active, pays, rems) \<Rightarrow> (onHeap h0 active, pays, rems))"

section \<open>Lemmas\<close>

subsection \<open>Sums and records\<close>

lemma orZero_id: "orZero x = x"
  by (simp add: orZero_def)

lemma foldl_plus_map:
  "foldl (\<lambda>sum x. sum + f x) a xs = (a::rat) + sum_list (map f xs)"
  by (induction xs arbitrary: a) simp_all

lemma keys_update: "fst ` set (AList.update k v al) = insert k (fst ` set al)"
  by (simp add: dom_update)

lemma keys_setProperty:
  "fst ` set (setProperty k v al) =
     (if k = ''__proto__'' then fst ` set al else insert k (fst ` set al))"
  by (simp add: setProperty_def keys_update)

lemma map_of_setProperty:
  "map_of (setProperty k v al) x =
     (if k \<noteq> ''__proto__'' \<and> x = k then Some v else map_of al x)"
  by (simp add: setProperty_def update_conv')

lemma applyPayment_active:
  "fst (applyPayment i paid (active, pays, rems)) =
     active[i := (active ! i)\<lparr>remaining := remaining (active ! i) - paid\<rparr>]"
  by (simp add: applyPayment_def Let_def)

lemma applyPayment_pays:
  "fst (snd (applyPayment i paid (active, pays, rems))) =
     setProperty (debt_id (active ! i))
       (jsPlus (getOrZero pays (debt_id (active ! i))) (Num paid)) pays"
  by (simp add: applyPayment_def Let_def)

lemma applyPayment_rems:
  "snd (snd (applyPayment i paid (active, pays, rems))) =
     setProperty (debt_id (active ! i)) (remaining (active ! i) - paid) rems"
  by (simp add: applyPayment_def Let_def)

lemma applyPayment_length: "length (fst (applyPayment i paid st)) = length (fst st)"
  by (cases st) (simp add: applyPayment_def Let_def)

subsection \<open>Induction over the two passes\<close>

lemma payMinimums_invariant:
  assumes "I st"
    and "\<And>i active pays rems. i \<in> set sa \<Longrightarrow> I (active, pays, rems) \<Longrightarrow>
           I (applyPayment i (min (remaining (active ! i)) (max 0 (minPayment (active ! i))))
                (active, pays, rems))"
  shows "I (payMinimums sa st)"
  using assms
proof (induction sa arbitrary: st)
  case Nil
  then show ?case by simp
next
  case (Cons i rest)
  obtain active pays rems where st: "st = (active, pays, rems)"
    by (cases st) auto
  have "I (applyPayment i (min (remaining (active ! i)) (max 0 (minPayment (active ! i)))) st)"
    using Cons.prems st by simp
  then have "I (payMinimums rest
      (applyPayment i (min (remaining (active ! i)) (max 0 (minPayment (active ! i)))) st))"
    using Cons.prems(2) by (intro Cons.IH) simp_all
  then show ?case
    by (simp add: st Let_def orZero_id)
qed

lemma snowball_target:
  assumes "sort_key f (filter P sa) = t # rest"
  shows "t \<in> set sa \<and> P t"
proof -
  have "t \<in> set (sort_key f (filter P sa))"
    using assms by simp
  then show ?thesis by (simp only: set_sort) simp
qed

lemma applySnowball_invariant:
  assumes "I extra st"
    and "\<And>t extra active pays rems. t \<in> set sa \<Longrightarrow> epsilon < extra \<Longrightarrow>
           epsilon < remaining (active ! t) \<Longrightarrow> I extra (active, pays, rems) \<Longrightarrow>
           I (extra - min (remaining (active ! t)) extra)
             (applyPayment t (min (remaining (active ! t)) extra) (active, pays, rems))"
    and "\<And>extra st. I extra st \<Longrightarrow> J st"
  shows "J (applySnowball sa extra st)"
  using assms
proof (induction sa extra st rule: applySnowball.induct)
  case (1 sa extra st)
  obtain active pays rems where st: "st = (active, pays, rems)"
    by (cases st) auto
  have fin: "J st"
    using "1.prems"(1,3) by blast
  show ?case
  proof (cases "epsilon < extra")
    case False
    then show ?thesis
      using fin by (subst applySnowball.simps) (simp add: st)
  next
    case True
    show ?thesis
    proof (cases "sort_key (\<lambda>i. remaining (active ! i))
                   (filter (\<lambda>i. epsilon < remaining (active ! i)) sa)")
      case Nil
      then show ?thesis
        using fin True by (subst applySnowball.simps) (simp add: st)
    next
      case (Cons t rest)
      have t: "t \<in> set sa \<and> epsilon < remaining (active ! t)"
        using snowball_target [OF Cons] .
      have "I (extra - min (remaining (active ! t)) extra)
              (applyPayment t (min (remaining (active ! t)) extra) st)"
        unfolding st by (rule "1.prems"(2)) (use t True "1.prems"(1) st in simp_all)
      then have "J (applySnowball sa (extra - min (remaining (active ! t)) extra)
              (applyPayment t (min (remaining (active ! t)) extra) st))"
        using "1.IH" [OF st [symmetric] refl True Cons refl refl _ "1.prems"(2,3)] by simp
      then show ?thesis
        using True Cons by (subst applySnowball.simps) (simp add: st Let_def)
    qed
  qed
qed

subsection \<open>One payment\<close>

lemma nth_update_remaining:
  "(active[i := (active ! i)\<lparr>remaining := r\<rparr>]) ! j =
     (if j = i \<and> i < length active then (active ! i)\<lparr>remaining := r\<rparr> else active ! j)"
  by (cases "i < length active") (auto simp: nth_list_update list_update_beyond)

lemma sameDebts_update:
  "sameDebts a0 active \<Longrightarrow> sameDebts a0 (active[i := (active ! i)\<lparr>remaining := r\<rparr>])"
  unfolding sameDebts_def by (simp add: nth_update_remaining)

lemma paidDown_update:
  assumes "paidDown a0 active" "length active = length a0" "0 \<le> paid"
    "paid \<le> remaining (active ! i)"
  shows "paidDown a0 (active[i := (active ! i)\<lparr>remaining := remaining (active ! i) - paid\<rparr>])"
  unfolding paidDown_def
proof (intro allI impI)
  fix j assume j: "j < length a0"
  have b: "0 \<le> remaining (active ! j) \<and> remaining (active ! j) \<le> remaining (a0 ! j)"
    using assms(1) j by (simp add: paidDown_def)
  show "0 \<le> remaining (active[i := (active ! i)\<lparr>remaining := remaining (active ! i) - paid\<rparr>] ! j) \<and>
        remaining (active[i := (active ! i)\<lparr>remaining := remaining (active ! i) - paid\<rparr>] ! j)
          \<le> remaining (a0 ! j)"
    using b assms(3,4) by (auto simp: nth_update_remaining)
qed

lemma untouched_update:
  "untouched sa a0 active \<Longrightarrow> i \<in> set sa \<Longrightarrow>
   untouched sa a0 (active[i := (active ! i)\<lparr>remaining := r\<rparr>])"
  unfolding untouched_def by (auto simp: nth_update_remaining)

lemma keysWithin_update:
  assumes "keysWithin sa active rec" "i \<in> set sa"
  shows "keysWithin sa (active[i := (active ! i)\<lparr>remaining := r\<rparr>])
           (setProperty (debt_id (active ! i)) v rec)"
proof -
  have "(\<lambda>j. debt_id (active[i := (active ! i)\<lparr>remaining := r\<rparr>] ! j)) ` set sa =
        (\<lambda>j. debt_id (active ! j)) ` set sa"
    by (rule image_cong) (simp_all add: nth_update_remaining)
  moreover have "fst ` set (setProperty (debt_id (active ! i)) v rec)
      \<subseteq> (\<lambda>j. debt_id (active ! j)) ` set sa - {''__proto__''}"
    using assms by (auto simp: keysWithin_def keys_setProperty)
  ultimately show ?thesis
    by (simp only: keysWithin_def)
qed

lemma recorded_update:
  assumes "recorded sa active rems" "i \<in> set sa" "i < length active"
    and "''__proto__'' \<notin> fst ` set rems"
  shows "recorded sa (active[i := (active ! i)\<lparr>remaining := r\<rparr>])
           (setProperty (debt_id (active ! i)) r rems)"
  unfolding recorded_def
proof (intro allI impI)
  fix k v
  let ?a = "active[i := (active ! i)\<lparr>remaining := r\<rparr>]"
  assume m: "map_of (setProperty (debt_id (active ! i)) r rems) k = Some v"
  show "\<exists>j\<in>set sa. debt_id (?a ! j) = k \<and> remaining (?a ! j) = v"
  proof (cases "k = debt_id (active ! i)")
    case True
    have "k \<in> fst ` set (setProperty (debt_id (active ! i)) r rems)"
      using m by (metis domI dom_map_of_conv_image_fst)
    then have "k \<noteq> ''__proto__''"
      using assms(4) by (cases "debt_id (active ! i) = ''__proto__''")
        (auto simp: keys_setProperty True)
    then have "v = r"
      using m True by (simp add: map_of_setProperty)
    then have "debt_id (?a ! i) = k \<and> remaining (?a ! i) = v"
      using True assms(3) by simp
    then show ?thesis using assms(2) by blast
  next
    case False
    then have "map_of rems k = Some v" using m by (simp add: map_of_setProperty)
    then obtain j where j: "j \<in> set sa" "debt_id (active ! j) = k" "remaining (active ! j) = v"
      using assms(1) unfolding recorded_def by blast
    have "j \<noteq> i" using j(2) False by auto
    then have "?a ! j = active ! j" by simp
    then show ?thesis using j by (intro bexI [of _ j]) simp_all
  qed
qed

lemma monthInv_applyPayment:
  assumes inv: "monthInv a0 sa (active, pays, rems)"
    and i: "i \<in> set sa" "i < length a0"
    and paid: "0 \<le> paid" "paid \<le> remaining (active ! i)"
  shows "monthInv a0 sa (applyPayment i paid (active, pays, rems))"
proof -
  have len: "length active = length a0"
    using inv by (simp add: monthInv_def sameDebts_def)
  let ?a = "active[i := (active ! i)\<lparr>remaining := remaining (active ! i) - paid\<rparr>]"
  have 1: "sameDebts a0 ?a"
    using inv by (simp add: monthInv_def sameDebts_update)
  have 2: "paidDown a0 ?a"
    using inv len paid by (simp add: monthInv_def paidDown_update)
  have 3: "untouched sa a0 ?a"
    using inv i(1) by (simp add: monthInv_def untouched_update)
  have np: "''__proto__'' \<notin> fst ` set rems"
    using inv by (auto simp: monthInv_def keysWithin_def)
  have 4: "recorded sa ?a (setProperty (debt_id (active ! i)) (remaining (active ! i) - paid) rems)"
    using inv i len np by (simp add: monthInv_def recorded_update)
  have 5: "keysWithin sa ?a
      (setProperty (debt_id (active ! i))
         (jsPlus (getOrZero pays (debt_id (active ! i))) (Num paid)) pays)"
    using inv i(1) by (simp add: monthInv_def keysWithin_update)
  have 6: "keysWithin sa ?a
      (setProperty (debt_id (active ! i)) (remaining (active ! i) - paid) rems)"
    using inv i(1) by (simp add: monthInv_def keysWithin_update)
  show ?thesis
    using 1 2 3 4 5 6 by (simp add: monthInv_def applyPayment_def Let_def)
qed

subsection \<open>The two passes\<close>

lemma epsilon_pos: "0 < epsilon"
  by (simp add: epsilon_def)

lemma monthInv_init:
  assumes "\<forall>j<length a0. 0 \<le> remaining (a0 ! j)"
  shows "monthInv a0 sa (a0, [], [])"
  using assms
  by (simp add: monthInv_def sameDebts_def paidDown_def untouched_def recorded_def keysWithin_def)

lemma monthInv_payMinimums:
  assumes "monthInv a0 sa st" "set sa' \<subseteq> set sa" "\<forall>i\<in>set sa. i < length a0"
  shows "monthInv a0 sa (payMinimums sa' st)"
proof (rule payMinimums_invariant [where I = "monthInv a0 sa", OF assms(1)])
  fix i active pays rems
  assume i: "i \<in> set sa'" and inv: "monthInv a0 sa (active, pays, rems)"
  have il: "i \<in> set sa" "i < length a0"
    using i assms(2,3) by auto
  have "0 \<le> remaining (active ! i)"
    using inv il(2) by (simp add: monthInv_def paidDown_def)
  then have "0 \<le> min (remaining (active ! i)) (max 0 (minPayment (active ! i)))"
    by simp
  then show "monthInv a0 sa
      (applyPayment i (min (remaining (active ! i)) (max 0 (minPayment (active ! i))))
         (active, pays, rems))"
    using inv il by (intro monthInv_applyPayment) simp_all
qed

lemma monthInv_applySnowball:
  assumes "monthInv a0 sa st" "\<forall>i\<in>set sa. i < length a0"
  shows "monthInv a0 sa (applySnowball sa extra st)"
proof (rule applySnowball_invariant
    [where I = "\<lambda>extra. monthInv a0 sa" and J = "monthInv a0 sa", OF assms(1)])
  fix t extra active pays rems
  assume t: "t \<in> set sa" and e: "epsilon < extra" "epsilon < remaining (active ! t)"
    and inv: "monthInv a0 sa (active, pays, rems)"
  have "0 \<le> min (remaining (active ! t)) extra"
    using e epsilon_pos by simp
  then show "monthInv a0 sa (applyPayment t (min (remaining (active ! t)) extra) (active, pays, rems))"
    using inv t assms(2) by (intro monthInv_applyPayment) simp_all
qed

lemma payMinimums_keys:
  "fst ` set (fst (snd (payMinimums sa (active, pays, rems)))) =
     fst ` set pays \<union> ((\<lambda>i. debt_id (active ! i)) ` set sa - {''__proto__''}) \<and>
   fst ` set (snd (snd (payMinimums sa (active, pays, rems)))) =
     fst ` set rems \<union> ((\<lambda>i. debt_id (active ! i)) ` set sa - {''__proto__''})"
proof (induction sa arbitrary: active pays rems)
  case Nil
  show ?case by simp
next
  case (Cons i rest)
  define paid where "paid = min (remaining (active ! i)) (max 0 (minPayment (active ! i)))"
  define active' where "active' = active[i := (active ! i)\<lparr>remaining := remaining (active ! i) - paid\<rparr>]"
  define pays' where
    "pays' = setProperty (debt_id (active ! i))
               (jsPlus (getOrZero pays (debt_id (active ! i))) (Num paid)) pays"
  define rems' where
    "rems' = setProperty (debt_id (active ! i)) (remaining (active ! i) - paid) rems"
  have step: "payMinimums (i # rest) (active, pays, rems) = payMinimums rest (active', pays', rems')"
    by (simp add: Let_def orZero_id applyPayment_def paid_def active'_def pays'_def rems'_def)
  have ids: "(\<lambda>j. debt_id (active' ! j)) ` set rest = (\<lambda>j. debt_id (active ! j)) ` set rest"
    by (rule image_cong) (simp_all add: active'_def nth_update_remaining)
  have "fst ` set pays' = fst ` set pays \<union> ({debt_id (active ! i)} - {''__proto__''})"
       "fst ` set rems' = fst ` set rems \<union> ({debt_id (active ! i)} - {''__proto__''})"
    by (auto simp: pays'_def rems'_def keys_setProperty)
  then show ?case
    unfolding step using Cons.IH [of active' pays' rems'] ids by auto
qed

lemma applySnowball_keys:
  assumes "S \<subseteq> fst ` set (fst (snd st))" "T \<subseteq> fst ` set (snd (snd st))"
  shows "S \<subseteq> fst ` set (fst (snd (applySnowball sa extra st))) \<and>
         T \<subseteq> fst ` set (snd (snd (applySnowball sa extra st)))"
proof (rule applySnowball_invariant
    [where I = "\<lambda>extra st. S \<subseteq> fst ` set (fst (snd st)) \<and> T \<subseteq> fst ` set (snd (snd st))"
       and J = "\<lambda>st. S \<subseteq> fst ` set (fst (snd st)) \<and> T \<subseteq> fst ` set (snd (snd st))"])
  show "S \<subseteq> fst ` set (fst (snd st)) \<and> T \<subseteq> fst ` set (snd (snd st))"
    using assms by simp
next
  fix t and extra :: rat and active :: "ActiveDebt list" and pays :: "(string \<times> jsvalue) list"
    and rems :: "(string \<times> rat) list"
  assume "S \<subseteq> fst ` set (fst (snd (active, pays, rems))) \<and>
          T \<subseteq> fst ` set (snd (snd (active, pays, rems)))"
  then show "S \<subseteq> fst ` set (fst (snd (applyPayment t (min (remaining (active ! t)) extra)
                 (active, pays, rems)))) \<and>
        T \<subseteq> fst ` set (snd (snd (applyPayment t (min (remaining (active ! t)) extra)
                 (active, pays, rems))))"
    by (auto simp: applyPayment_pays applyPayment_rems keys_setProperty)
qed simp

lemma payMinimums_length: "length (fst (payMinimums sa st)) = length (fst st)"
  by (rule payMinimums_invariant [where I = "\<lambda>s. length (fst s) = length (fst st)"])
     (simp_all add: applyPayment_length)

lemma applySnowball_length: "length (fst (applySnowball sa extra st)) = length (fst st)"
  by (rule applySnowball_invariant
      [where I = "\<lambda>e s. length (fst s) = length (fst st)"
         and J = "\<lambda>s. length (fst s) = length (fst st)"])
     (simp_all add: applyPayment_length)

subsection \<open>One month\<close>

lemma simulateMonth_eq:
  "simulateMonth tm mi sa a0 =
     (let st = applySnowball sa (max 0 (tm - sum_list (map (\<lambda>i. minPayment (a0 ! i)) sa)))
                 (payMinimums sa (a0, [], []))
      in (\<lparr>monthIndex = mi,
           totalPaid = foldl (\<lambda>sum v. jsPlus sum v) (Num 0) (map snd (fst (snd st))),
           payments = fst (snd st), remainingById = snd (snd st)\<rparr>, fst st))"
  by (simp add: simulateMonth_def Let_def foldl_plus_map orZero_id split: prod.splits)

lemma simulateMonth_monthIndex:
  "simulateMonth tm mi sa a0 = (month, active') \<Longrightarrow> monthIndex month = mi"
  by (auto simp: simulateMonth_eq Let_def)

lemma simulateMonth_monthInv:
  assumes "simulateMonth tm mi sa a0 = (month, active')"
    and "\<forall>i\<in>set sa. i < length a0" "\<forall>j<length a0. 0 \<le> remaining (a0 ! j)"
  shows "monthInv a0 sa (active', payments month, remainingById month)"
proof -
  define st where "st = applySnowball sa (max 0 (tm - sum_list (map (\<lambda>i. minPayment (a0 ! i)) sa)))
                 (payMinimums sa (a0, [], []))"
  have "monthInv a0 sa st"
    unfolding st_def using assms(2,3)
    by (intro monthInv_applySnowball monthInv_payMinimums monthInv_init) simp_all
  moreover have "st = (active', payments month, remainingById month)"
    using assms(1) by (auto simp: simulateMonth_eq Let_def st_def)
  ultimately show ?thesis by simp
qed

lemma simulateMonth_keys:
  assumes "simulateMonth tm mi sa a0 = (month, active')"
    and "\<forall>i\<in>set sa. i < length a0" "\<forall>j<length a0. 0 \<le> remaining (a0 ! j)"
  shows "fst ` set (payments month) = (\<lambda>i. debt_id (a0 ! i)) ` set sa - {''__proto__''}"
    and "fst ` set (remainingById month) = (\<lambda>i. debt_id (a0 ! i)) ` set sa - {''__proto__''}"
proof -
  let ?ids = "(\<lambda>i. debt_id (a0 ! i)) ` set sa - {''__proto__''}"
  define st1 where "st1 = payMinimums sa (a0, [], [])"
  define st where "st = applySnowball sa (max 0 (tm - sum_list (map (\<lambda>i. minPayment (a0 ! i)) sa))) st1"
  have st: "st = (active', payments month, remainingById month)"
    using assms(1) by (auto simp: simulateMonth_eq Let_def st_def st1_def)
  have k1: "fst ` set (fst (snd st1)) = ?ids" "fst ` set (snd (snd st1)) = ?ids"
    using payMinimums_keys [of sa a0 "[]" "[]"] by (simp_all add: st1_def)
  have sup: "?ids \<subseteq> fst ` set (payments month)" "?ids \<subseteq> fst ` set (remainingById month)"
    using applySnowball_keys [of "fst ` set (fst (snd st1))" st1 "fst ` set (snd (snd st1))" sa
        "max 0 (tm - sum_list (map (\<lambda>i. minPayment (a0 ! i)) sa))"] k1 st
    by (simp_all add: st_def)
  have inv: "monthInv a0 sa (active', payments month, remainingById month)"
    using simulateMonth_monthInv [OF assms] .
  have "sameDebts a0 active'"
    using inv by (simp add: monthInv_def)
  then have ids: "(\<lambda>i. debt_id (active' ! i)) ` set sa = (\<lambda>i. debt_id (a0 ! i)) ` set sa"
    by (intro image_cong) (simp_all add: sameDebts_def)
  have sub: "fst ` set (payments month) \<subseteq> ?ids" "fst ` set (remainingById month) \<subseteq> ?ids"
    using inv ids by (simp_all add: monthInv_def keysWithin_def)
  show "fst ` set (payments month) = ?ids"
    using sub(1) sup(1) by (rule subset_antisym)
  show "fst ` set (remainingById month) = ?ids"
    using sub(2) sup(2) by (rule subset_antisym)
qed

lemma simulateMonth_length:
  "simulateMonth tm mi sa active = (month, active') \<Longrightarrow> length active' = length active"
  by (auto simp: simulateMonth_eq Let_def applySnowball_length payMinimums_length)

lemma set_stillActive:
  "set (stillActive active) = {i. i < length active \<and> 0 < remaining (active ! i)}"
  by (auto simp: stillActive_def)

lemma sameDebts_trans:
  "sameDebts a b \<Longrightarrow> sameDebts b c \<Longrightarrow> sameDebts a c"
  by (simp add: sameDebts_def)

lemma paidDown_trans:
  "paidDown a b \<Longrightarrow> paidDown b c \<Longrightarrow> length b = length a \<Longrightarrow> paidDown a c"
  unfolding paidDown_def by (metis order_trans)

subsection \<open>The loop over the months\<close>

lemma monthLoop_rule:
  assumes "sameDebts w active" "paidDown w active"
    and "I mi active months"
    and "\<And>mi active months month active'.
         \<lbrakk>sameDebts w active; paidDown w active; I mi active months; mi \<le> mm;
          stillActive active \<noteq> [];
          simulateMonth tm mi (stillActive active) active = (month, active');
          sameDebts w active'; paidDown w active';
          monthInv active (stillActive active) (active', payments month, remainingById month)\<rbrakk>
         \<Longrightarrow> I (Suc mi) active' (months @ [month])"
    and "\<And>mi active months.
         \<lbrakk>sameDebts w active; paidDown w active; I mi active months;
          mm < mi \<or> (\<forall>j<length active. remaining (active ! j) \<le> epsilon) \<and>
            (stillActive active = [] \<or> months \<noteq> [])\<rbrakk>
         \<Longrightarrow> J months"
  shows "J (monthLoop tm mm mi active months)"
  using assms
proof (induction tm mm mi active months rule: monthLoop.induct)
  case (1 tm mm mi active months)
  note base = "1.prems"(1,2) and init = "1.prems"(3) and step = "1.prems"(4)
    and final = "1.prems"(5)
  define sa where "sa = stillActive active"
  have len: "length active = length w"
    using base(1) by (simp add: sameDebts_def)
  have nonneg: "\<forall>j<length active. 0 \<le> remaining (active ! j)"
    using base(2) len by (simp add: paidDown_def)
  have range: "\<forall>i\<in>set sa. i < length active"
    by (simp add: sa_def set_stillActive)
  show ?case
  proof (cases "mi \<le> mm")
    case False
    then have "monthLoop tm mm mi active months = months"
      by (subst monthLoop.simps) simp
    moreover have "J months"
      using final [OF base init] False by simp
    ultimately show ?thesis by simp
  next
    case le: True
    show ?thesis
    proof (cases "sa = []")
      case True
      then have "monthLoop tm mm mi active months = months"
        using le by (subst monthLoop.simps) (simp add: sa_def)
      moreover have "\<forall>j<length active. remaining (active ! j) \<le> epsilon"
      proof (intro allI impI)
        fix j assume "j < length active"
        then have "\<not> 0 < remaining (active ! j)"
          using True set_stillActive [of active] by (auto simp: sa_def)
        then show "remaining (active ! j) \<le> epsilon"
          using epsilon_pos by simp
      qed
      then have "J months"
        using final [OF base init] True by (simp add: sa_def)
      ultimately show ?thesis by simp
    next
      case ne: False
      obtain month active' where sim: "simulateMonth tm mi sa active = (month, active')"
        by (cases "simulateMonth tm mi sa active") auto
      have inv: "monthInv active sa (active', payments month, remainingById month)"
        using simulateMonth_monthInv [OF sim range nonneg] .
      have sd: "sameDebts w active'"
        using base(1) inv by (auto simp: monthInv_def intro: sameDebts_trans)
      have pd: "paidDown w active'"
        using base(2) inv len by (auto simp: monthInv_def intro: paidDown_trans)
      have I': "I (Suc mi) active' (months @ [month])"
        using step [OF base init le _ _ sd pd, of month] ne sim inv by (simp add: sa_def)
      show ?thesis
      proof (cases "list_all (\<lambda>i. remaining (active' ! i) \<le> epsilon) sa")
        case True
        have "monthLoop tm mm mi active months = months @ [month]"
          using le ne sim True by (subst monthLoop.simps) (simp add: sa_def Let_def)
        moreover have "\<forall>j<length active'. remaining (active' ! j) \<le> epsilon"
        proof (intro allI impI)
          fix j assume j: "j < length active'"
          show "remaining (active' ! j) \<le> epsilon"
          proof (cases "j \<in> set sa")
            case True
            then show ?thesis
              using \<open>list_all (\<lambda>i. remaining (active' ! i) \<le> epsilon) sa\<close>
              by (simp add: list_all_iff)
          next
            case False
            then have "active' ! j = active ! j"
              using inv by (simp add: monthInv_def untouched_def)
            moreover have "j < length active"
              using j inv by (simp add: monthInv_def sameDebts_def)
            then have "\<not> 0 < remaining (active ! j)"
              using False by (simp add: sa_def set_stillActive)
            ultimately show ?thesis
              using epsilon_pos by simp
          qed
        qed
        then have "J (months @ [month])"
          using final [OF sd pd I'] by simp
        ultimately show ?thesis by simp
      next
        case False
        have "monthLoop tm mm mi active months =
              monthLoop tm mm (mi + 1) active' (months @ [month])"
          using le ne sim False by (subst monthLoop.simps) (simp add: sa_def Let_def)
        moreover have "J (monthLoop tm mm (mi + 1) active' (months @ [month]))"
        proof (rule "1.IH" [OF le sa_def _ sim [symmetric] refl False sd pd _ step final])
          show "length sa \<noteq> 0" using ne by simp
          show "I (mi + 1) active' (months @ [month])" using I' by simp
        qed
        ultimately show ?thesis by simp
      qed
    qed
  qed
qed

subsection \<open>The working set: indices and keys\<close>

lemma runSnowball_eq:
  "runSnowball debts extraPayment maxMonths =
     (if working debts = [] then []
      else monthLoop (sum_list (map minPayment (working debts)) + extraPayment) maxMonths 1
             (working debts) [])"
  by (simp add: runSnowball_def working_def Let_def foldl_plus_map orZero_id)

lemma working_fields:
  "map debt_id (working debts) = map debt_id (filter (\<lambda>d. 0 < debtAmount d) debts)"
  "map minPayment (working debts) = map minPayment (filter (\<lambda>d. 0 < debtAmount d) debts)"
  "map debtAmount (working debts) = map debtAmount (filter (\<lambda>d. 0 < debtAmount d) debts)"
  "map remaining (working debts) = map debtAmount (filter (\<lambda>d. 0 < debtAmount d) debts)"
  by (simp_all add: working_def toActive_def)

lemma working_remaining_pos:
  "j < length (working debts) \<Longrightarrow> 0 < remaining (working debts ! j)"
proof -
  assume j: "j < length (working debts)"
  then have "remaining (working debts ! j) = map remaining (working debts) ! j"
    by simp
  also have "\<dots> = debtAmount (filter (\<lambda>d. 0 < debtAmount d) debts ! j)"
    using j by (simp add: working_def toActive_def)
  also have "0 < \<dots>"
    using j nth_mem [of j "filter (\<lambda>d. 0 < debtAmount d) debts"] by (simp add: working_def)
  finally show ?thesis .
qed

lemma sameDebts_refl: "sameDebts w w"
  by (simp add: sameDebts_def)

lemma paidDown_working: "paidDown (working debts) (working debts)"
  using working_remaining_pos [of _ debts] by (auto simp: paidDown_def intro: less_imp_le)

lemma monthLoop_indices:
  assumes "sameDebts w active" "paidDown w active"
    and "map monthIndex months = [1..<mi]" "1 \<le> mi" "mi \<le> Suc mm"
  shows "length (monthLoop tm mm mi active months) \<le> mm \<and>
         map monthIndex (monthLoop tm mm mi active months) =
           [1..<Suc (length (monthLoop tm mm mi active months))]"
proof (rule monthLoop_rule
    [where I = "\<lambda>mi active months. map monthIndex months = [1..<mi] \<and> 1 \<le> mi \<and> mi \<le> Suc mm"
       and J = "\<lambda>months. length months \<le> mm \<and> map monthIndex months = [1..<Suc (length months)]",
     OF assms(1,2)])
  show "map monthIndex months = [1..<mi] \<and> 1 \<le> mi \<and> mi \<le> Suc mm"
    using assms by simp
next
  fix mi and active active' :: "ActiveDebt list" and months :: "SnowballMonth list"
    and month :: SnowballMonth
  assume "map monthIndex months = [1..<mi] \<and> 1 \<le> mi \<and> mi \<le> Suc mm" "mi \<le> mm"
    "simulateMonth tm mi (stillActive active) active = (month, active')"
  then show "map monthIndex (months @ [month]) = [1..<Suc mi] \<and> 1 \<le> Suc mi \<and> Suc mi \<le> Suc mm"
    by (simp add: simulateMonth_monthIndex)
next
  fix mi :: nat and active :: "ActiveDebt list" and months :: "SnowballMonth list"
  assume a: "map monthIndex months = [1..<mi] \<and> 1 \<le> mi \<and> mi \<le> Suc mm"
  then have b: "1 \<le> mi" "mi \<le> Suc mm" and c: "map monthIndex months = [1..<mi]"
    by simp_all
  have "length (map monthIndex months) = length [1..<mi]"
    by (simp only: c)
  then have l: "length months = mi - 1"
    by simp
  have "length months \<le> mm"
    using l b by linarith
  moreover have "Suc (length months) = mi"
    using l b by linarith
  ultimately show "length months \<le> mm \<and> map monthIndex months = [1..<Suc (length months)]"
    using c by simp
qed

lemma monthLoop_keys:
  assumes "sameDebts w active" "paidDown w active"
    and "\<forall>m\<in>set months. fst ` set (payments m) \<subseteq> debt_id ` set w \<and>
            fst ` set (remainingById m) \<subseteq> debt_id ` set w"
  shows "\<forall>m\<in>set (monthLoop tm mm mi active months).
           fst ` set (payments m) \<subseteq> debt_id ` set w \<and>
           fst ` set (remainingById m) \<subseteq> debt_id ` set w"
proof (rule monthLoop_rule
    [where I = "\<lambda>mi active months. \<forall>m\<in>set months. fst ` set (payments m) \<subseteq> debt_id ` set w \<and>
            fst ` set (remainingById m) \<subseteq> debt_id ` set w"
       and J = "\<lambda>months. \<forall>m\<in>set months. fst ` set (payments m) \<subseteq> debt_id ` set w \<and>
            fst ` set (remainingById m) \<subseteq> debt_id ` set w", OF assms(1,2,3)])
  fix mi and active active' :: "ActiveDebt list" and months :: "SnowballMonth list"
    and month :: SnowballMonth
  assume sd: "sameDebts w active" and pd: "paidDown w active"
    and old: "\<forall>m\<in>set months. fst ` set (payments m) \<subseteq> debt_id ` set w \<and>
            fst ` set (remainingById m) \<subseteq> debt_id ` set w"
    and sim: "simulateMonth tm mi (stillActive active) active = (month, active')"
  have len: "length active = length w"
    using sd by (simp add: sameDebts_def)
  have range: "\<forall>i\<in>set (stillActive active). i < length active"
    by (simp add: set_stillActive)
  have nonneg: "\<forall>j<length active. 0 \<le> remaining (active ! j)"
    using pd len by (simp add: paidDown_def)
  have "(\<lambda>i. debt_id (active ! i)) ` set (stillActive active) \<subseteq> debt_id ` set w"
  proof
    fix k assume "k \<in> (\<lambda>i. debt_id (active ! i)) ` set (stillActive active)"
    then obtain i where i: "i < length w" "k = debt_id (active ! i)"
      using range len by auto
    then have "k = debt_id (w ! i)"
      using sd by (simp add: sameDebts_def)
    then show "k \<in> debt_id ` set w"
      using i(1) by simp
  qed
  then have "fst ` set (payments month) \<subseteq> debt_id ` set w \<and>
        fst ` set (remainingById month) \<subseteq> debt_id ` set w"
    using simulateMonth_keys [OF sim range nonneg] by auto
  then show "\<forall>m\<in>set (months @ [month]). fst ` set (payments m) \<subseteq> debt_id ` set w \<and>
            fst ` set (remainingById m) \<subseteq> debt_id ` set w"
    using old by simp
qed simp

subsection \<open>Computed schedules\<close>

lemma schedule_single:
  "runSnowball [\<lparr>debt_id = ''a'', minPayment = 100, debtAmount = 250\<rparr>] 0 600 =
     [\<lparr>monthIndex = 1, totalPaid = Num 100, payments = [(''a'', Num 100)], remainingById = [(''a'', 150)]\<rparr>,
      \<lparr>monthIndex = 2, totalPaid = Num 100, payments = [(''a'', Num 100)], remainingById = [(''a'', 50)]\<rparr>,
      \<lparr>monthIndex = 3, totalPaid = Num 50, payments = [(''a'', Num 50)], remainingById = [(''a'', 0)]\<rparr>]"
  by code_simp

lemma schedule_pair:
  "runSnowball [\<lparr>debt_id = ''a'', minPayment = 10, debtAmount = 50\<rparr>,
                \<lparr>debt_id = ''b'', minPayment = 10, debtAmount = 200\<rparr>] 40 600 =
     [\<lparr>monthIndex = 1, totalPaid = Num 60, payments = [(''a'', Num 50), (''b'', Num 10)],
        remainingById = [(''a'', 0), (''b'', 190)]\<rparr>,
      \<lparr>monthIndex = 2, totalPaid = Num 60, payments = [(''b'', Num 60)], remainingById = [(''b'', 130)]\<rparr>,
      \<lparr>monthIndex = 3, totalPaid = Num 60, payments = [(''b'', Num 60)], remainingById = [(''b'', 70)]\<rparr>,
      \<lparr>monthIndex = 4, totalPaid = Num 60, payments = [(''b'', Num 60)], remainingById = [(''b'', 10)]\<rparr>,
      \<lparr>monthIndex = 5, totalPaid = Num 10, payments = [(''b'', Num 10)], remainingById = [(''b'', 0)]\<rparr>]"
  by code_simp

subsection \<open>Entries that do not grow\<close>

lemma distinct_ids_index:
  assumes "distinct (map debt_id w)" "j < length w" "j' < length w"
    "debt_id (w ! j') = debt_id (w ! j)"
  shows "j' = j"
proof -
  have "(map debt_id w ! j' = map debt_id w ! j) = (j' = j)"
    by (rule nth_eq_iff_index_eq) (use assms in simp_all)
  then show ?thesis
    using assms(2,3,4) by simp
qed

lemma monthLoop_nonIncreasing:
  assumes "sameDebts w active" "paidDown w active" "distinct (map debt_id w)"
    and "nonIncreasing months" "lastBounds w active months"
  shows "nonIncreasing (monthLoop tm mm mi active months)"
proof (rule monthLoop_rule
    [where I = "\<lambda>mi active months. nonIncreasing months \<and> lastBounds w active months"
       and J = nonIncreasing, OF assms(1,2)])
  show "nonIncreasing months \<and> lastBounds w active months"
    using assms(4,5) by simp
next
  fix mi and active active' :: "ActiveDebt list" and months :: "SnowballMonth list"
    and month :: SnowballMonth
  assume sd: "sameDebts w active" and sd': "sameDebts w active'"
    and I: "nonIncreasing months \<and> lastBounds w active months"
    and inv: "monthInv active (stillActive active) (active', payments month, remainingById month)"
  have len: "length active = length w"
    using sd by (simp add: sameDebts_def)
  have rec: "\<exists>j<length w. debt_id (w ! j) = x \<and> remaining (active' ! j) = r \<and>
               remaining (active' ! j) \<le> remaining (active ! j)"
    if m: "map_of (remainingById month) x = Some r" for x r
  proof -
    obtain j where j: "j \<in> set (stillActive active)" "debt_id (active' ! j) = x"
        "remaining (active' ! j) = r"
      using inv m unfolding monthInv_def recorded_def by auto
    have jl: "j < length w"
      using j(1) len by (simp add: set_stillActive)
    have "remaining (active' ! j) \<le> remaining (active ! j)"
      using inv jl len by (simp add: monthInv_def paidDown_def)
    moreover have "debt_id (w ! j) = x"
      using j(2) sd' by (simp add: sameDebts_def)
    ultimately show ?thesis
      using jl j(3) by blast
  qed
  have "nonIncreasing (months @ [month])"
    unfolding nonIncreasing_def
  proof (intro allI impI, elim conjE)
    fix k x r r'
    assume k: "Suc k < length (months @ [month])"
      and r: "map_of (remainingById ((months @ [month]) ! k)) x = Some r"
      and r': "map_of (remainingById ((months @ [month]) ! Suc k)) x = Some r'"
    show "r' \<le> r"
    proof (cases "Suc k < length months")
      case True
      then show ?thesis
        using I r r' unfolding nonIncreasing_def by (auto simp: nth_append)
    next
      case False
      then have eq: "Suc k = length months"
        using k by simp
      then have ne: "months \<noteq> []"
        by auto
      have "k = length months - 1"
        using eq by simp
      then have lm: "(months @ [month]) ! k = last months"
        using ne by (simp add: nth_append last_conv_nth)
      have "(months @ [month]) ! Suc k = month"
        using eq by simp
      then obtain j where j: "j < length w" "debt_id (w ! j) = x" "remaining (active' ! j) = r'"
          "remaining (active' ! j) \<le> remaining (active ! j)"
        using rec r' by auto
      have "remaining (active ! j) \<le> r"
        using I ne j(1,2) r lm unfolding lastBounds_def by auto
      then show ?thesis
        using j(3,4) by simp
    qed
  qed
  moreover have "lastBounds w active' (months @ [month])"
    unfolding lastBounds_def
  proof (intro allI impI)
    fix j r
    assume j: "j < length w"
      and "map_of (remainingById (last (months @ [month]))) (debt_id (w ! j)) = Some r"
    then obtain j' where j': "j' < length w" "debt_id (w ! j') = debt_id (w ! j)"
        "remaining (active' ! j') = r"
      using rec by auto
    have "j' = j"
      using distinct_ids_index [OF assms(3) j j'(1,2)] .
    then show "remaining (active' ! j) \<le> r"
      using j'(3) by simp
  qed
  ultimately show "nonIncreasing (months @ [month]) \<and> lastBounds w active' (months @ [month])"
    by simp
qed simp

subsection \<open>Debts that are paid off\<close>

lemma monthLoop_paidOff:
  assumes "sameDebts w active" "paidDown w active"
    and "settled w active months" "lastRecorded w active months"
    and "length months + 1 = mi" "months = [] \<longrightarrow> stillActive active \<noteq> []"
  shows "length (monthLoop tm mm mi active months) < mm \<longrightarrow>
         paidOff w (monthLoop tm mm mi active months)"
proof (rule monthLoop_rule
    [where I = "\<lambda>mi active months. settled w active months \<and> lastRecorded w active months \<and>
                  length months + 1 = mi \<and> (months = [] \<longrightarrow> stillActive active \<noteq> [])"
       and J = "\<lambda>months. length months < mm \<longrightarrow> paidOff w months", OF assms(1,2)])
  show "settled w active months \<and> lastRecorded w active months \<and>
        length months + 1 = mi \<and> (months = [] \<longrightarrow> stillActive active \<noteq> [])"
    using assms(3-6) by simp
next
  fix mi and active active' :: "ActiveDebt list" and months :: "SnowballMonth list"
    and month :: SnowballMonth
  assume sd: "sameDebts w active" and pd: "paidDown w active"
    and sd': "sameDebts w active'" and pd': "paidDown w active'"
    and I: "settled w active months \<and> lastRecorded w active months \<and>
            length months + 1 = mi \<and> (months = [] \<longrightarrow> stillActive active \<noteq> [])"
    and sim: "simulateMonth tm mi (stillActive active) active = (month, active')"
    and inv: "monthInv active (stillActive active) (active', payments month, remainingById month)"
  let ?sa = "stillActive active"
  have len: "length active = length w"
    using sd by (simp add: sameDebts_def)
  have range: "\<forall>i\<in>set ?sa. i < length active"
    by (simp add: set_stillActive)
  have nonneg: "\<forall>j<length active. 0 \<le> remaining (active ! j)"
    using pd len by (simp add: paidDown_def)
  have ids: "debt_id (active ! j) = debt_id (w ! j)" "debt_id (active' ! j) = debt_id (w ! j)" for j
    using sd sd' by (simp_all add: sameDebts_def)
  have keys: "fst ` set (remainingById month) = (\<lambda>i. debt_id (w ! i)) ` set ?sa - {''__proto__''}"
    using simulateMonth_keys(2) [OF sim range nonneg] by (simp add: ids)
  have rec: "\<exists>j<length w. debt_id (w ! j) = x \<and> remaining (active' ! j) = r"
    if m: "map_of (remainingById month) x = Some r" for x r
  proof -
    obtain j where j: "j \<in> set ?sa" "debt_id (active' ! j) = x" "remaining (active' ! j) = r"
      using inv m unfolding monthInv_def recorded_def by auto
    then show ?thesis
      using len by (auto simp: set_stillActive ids)
  qed
  have key: "debt_id (w ! j) \<in> fst ` set (remainingById month)"
    if j: "j < length w" "0 < remaining (active ! j)" "debt_id (w ! j) \<noteq> ''__proto__''" for j
    using j len unfolding keys by (auto simp: set_stillActive)
  have down: "remaining (active' ! j) \<le> remaining (active ! j)" if "j < length w" for j
    using inv that len by (simp add: monthInv_def paidDown_def)
  have nonneg': "0 \<le> remaining (active' ! j)" if "j < length w" for j
    using pd' that by (simp add: paidDown_def)
  have "settled w active' (months @ [month])"
    unfolding settled_def
  proof (intro allI impI, elim conjE)
    fix x
    assume np: "x \<noteq> ''__proto__''"
      and ex: "\<exists>j<length w. debt_id (w ! j) = x"
      and all: "\<forall>j<length w. debt_id (w ! j) = x \<longrightarrow> remaining (active' ! j) \<le> 0"
    show "\<exists>m\<in>set (months @ [month]). \<exists>r. map_of (remainingById m) x = Some r \<and> 0 \<le> r \<and> r \<le> epsilon"
    proof (cases "\<forall>j<length w. debt_id (w ! j) = x \<longrightarrow> remaining (active ! j) \<le> 0")
      case True
      then have "\<exists>m\<in>set months. \<exists>r. map_of (remainingById m) x = Some r \<and> 0 \<le> r \<and> r \<le> epsilon"
        using I ex np unfolding settled_def by blast
      then show ?thesis by auto
    next
      case False
      then obtain j where j: "j < length w" "debt_id (w ! j) = x" "0 < remaining (active ! j)"
        by (auto simp: not_le)
      have "x \<in> fst ` set (remainingById month)"
        using key [OF j(1,3)] j(2) np by simp
      then obtain r where r: "map_of (remainingById month) x = Some r"
        by (metis map_of_eq_None_iff not_Some_eq)
      then obtain j' where j': "j' < length w" "debt_id (w ! j') = x" "remaining (active' ! j') = r"
        using rec by blast
      have "r \<le> 0" "0 \<le> r"
        using all j' nonneg' [OF j'(1)] by auto
      then have "map_of (remainingById month) x = Some r \<and> 0 \<le> r \<and> r \<le> epsilon"
        using r epsilon_pos by simp
      then show ?thesis by auto
    qed
  qed
  moreover have "lastRecorded w active' (months @ [month])"
    unfolding lastRecorded_def
  proof (intro impI conjI allI)
    fix x r
    assume "map_of (remainingById (last (months @ [month]))) x = Some r"
    then show "\<exists>j<length w. remaining (active' ! j) = r"
      using rec by auto
  next
    fix j
    assume "j < length w" "0 < remaining (active' ! j) \<and> debt_id (w ! j) \<noteq> ''__proto__''"
    then show "debt_id (w ! j) \<in> fst ` set (remainingById (last (months @ [month])))"
      using key [of j] down [of j] by simp
  qed
  ultimately show "settled w active' (months @ [month]) \<and> lastRecorded w active' (months @ [month]) \<and>
        length (months @ [month]) + 1 = Suc mi \<and>
        (months @ [month] = [] \<longrightarrow> stillActive active' \<noteq> [])"
    using I by simp
next
  fix mi and active :: "ActiveDebt list" and months :: "SnowballMonth list"
  assume sd: "sameDebts w active" and pd: "paidDown w active"
    and I: "settled w active months \<and> lastRecorded w active months \<and>
            length months + 1 = mi \<and> (months = [] \<longrightarrow> stillActive active \<noteq> [])"
    and fin: "mm < mi \<or> (\<forall>j<length active. remaining (active ! j) \<le> epsilon) \<and>
            (stillActive active = [] \<or> months \<noteq> [])"
  have len: "length active = length w"
    using sd by (simp add: sameDebts_def)
  show "length months < mm \<longrightarrow> paidOff w months"
  proof
    assume "length months < mm"
    then have "\<not> mm < mi"
      using I by auto
    then have allLe: "\<forall>j<length w. remaining (active ! j) \<le> epsilon" and ne: "months \<noteq> []"
      using fin I len by auto
    have nonneg: "0 \<le> remaining (active ! j)" if "j < length w" for j
      using pd that by (simp add: paidDown_def)
    have last: "0 \<le> r \<and> r \<le> epsilon" if lr: "map_of (remainingById (last months)) x = Some r" for x r
    proof -
      obtain j where "j < length w" "remaining (active ! j) = r"
        using I ne lr unfolding lastRecorded_def by blast
      then show ?thesis
        using allLe nonneg by auto
    qed
    have "\<exists>m\<in>set months. \<exists>r. map_of (remainingById m) x = Some r \<and> 0 \<le> r \<and> r \<le> epsilon"
      if x: "x \<in> debt_id ` set w" and np: "x \<noteq> ''__proto__''" for x
    proof (cases "\<forall>j<length w. debt_id (w ! j) = x \<longrightarrow> remaining (active ! j) \<le> 0")
      case True
      moreover have "\<exists>j<length w. debt_id (w ! j) = x"
        using x by (auto simp: in_set_conv_nth)
      ultimately show ?thesis
        using I np unfolding settled_def by blast
    next
      case False
      then obtain j where j: "j < length w" "debt_id (w ! j) = x" "0 < remaining (active ! j)"
        by (auto simp: not_le)
      then have "x \<in> fst ` set (remainingById (last months))"
        using I ne np unfolding lastRecorded_def by blast
      then obtain r where r: "map_of (remainingById (last months)) x = Some r"
        by (metis map_of_eq_None_iff not_Some_eq)
      then have "map_of (remainingById (last months)) x = Some r \<and> 0 \<le> r \<and> r \<le> epsilon"
        using last by simp
      moreover have "last months \<in> set months"
        using ne by simp
      ultimately show ?thesis by blast
    qed
    then show "paidOff w months"
      using ne last unfolding paidOff_def by blast
  qed
qed

lemma stillActive_working: "stillActive (working debts) = [0..<length (working debts)]"
  unfolding stillActive_def by (rule filter_True) (simp add: working_remaining_pos)

lemma schedule_same_id:
  "runSnowball [\<lparr>debt_id = ''x'', minPayment = 10, debtAmount = 100\<rparr>,
                \<lparr>debt_id = ''x'', minPayment = 10, debtAmount = 10\<rparr>] 0 600 =
     [\<lparr>monthIndex = 1, totalPaid = Num 20, payments = [(''x'', Num 20)], remainingById = [(''x'', 0)]\<rparr>,
      \<lparr>monthIndex = 2, totalPaid = Num 20, payments = [(''x'', Num 20)], remainingById = [(''x'', 70)]\<rparr>,
      \<lparr>monthIndex = 3, totalPaid = Num 20, payments = [(''x'', Num 20)], remainingById = [(''x'', 50)]\<rparr>,
      \<lparr>monthIndex = 4, totalPaid = Num 20, payments = [(''x'', Num 20)], remainingById = [(''x'', 30)]\<rparr>,
      \<lparr>monthIndex = 5, totalPaid = Num 20, payments = [(''x'', Num 20)], remainingById = [(''x'', 10)]\<rparr>,
      \<lparr>monthIndex = 6, totalPaid = Num 10, payments = [(''x'', Num 10)], remainingById = [(''x'', 0)]\<rparr>]"
  by code_simp

subsection \<open>No budget\<close>

lemma update_entries: "set (AList.update k v al) \<subseteq> insert (k, v) (set al)"
  by (induction al) auto

lemma setProperty_entries: "set (setProperty k v al) \<subseteq> insert (k, v) (set al)"
  using update_entries [of k v al] by (auto simp: setProperty_def)

lemma sum_list_zero:
  "\<forall>x\<in>set xs. f x = (0::rat) \<Longrightarrow> sum_list (map f xs) = 0"
  by (induction xs) simp_all

lemma foldl_jsPlus_zero:
  "\<forall>v\<in>set vs. v = Num 0 \<Longrightarrow> foldl (\<lambda>sum v. jsPlus sum v) (Num 0) vs = Num 0"
  by (induction vs) (simp_all add: jsPlus_def)

lemma getOrZero_zeroPaid:
  assumes "zeroPaid pays" "k \<notin> set prototypeMethods" "k \<noteq> ''__proto__''"
  shows "getOrZero pays k = Num 0"
proof (cases "map_of pays k")
  case None
  then show ?thesis
    using assms(2,3) by (simp add: getOrZero_def)
next
  case (Some v)
  then have "(k, v) \<in> set pays"
    by (rule map_of_SomeD)
  then have "v = Num 0"
    using assms(1,2) unfolding zeroPaid_def by blast
  then show ?thesis
    using Some by (simp add: getOrZero_def orZero_id)
qed

lemma zeroPaid_setProperty:
  assumes "zeroPaid pays"
  shows "zeroPaid (setProperty k (jsPlus (getOrZero pays k) (Num 0)) pays)"
proof (cases "k \<notin> set prototypeMethods \<and> k \<noteq> ''__proto__''")
  case True
  then have "jsPlus (getOrZero pays k) (Num 0) = Num 0"
    using getOrZero_zeroPaid [OF assms] by (simp add: jsPlus_def)
  then show ?thesis
    using assms setProperty_entries [of k "Num 0" pays] unfolding zeroPaid_def by auto
next
  case False
  then show ?thesis
    using assms setProperty_entries [of k "jsPlus (getOrZero pays k) (Num 0)" pays]
    unfolding zeroPaid_def by (auto simp: setProperty_def)
qed

lemma payMinimums_zero:
  assumes "\<forall>i\<in>set sa. minPayment (active ! i) = 0 \<and> 0 \<le> remaining (active ! i)"
    and "zeroPaid pays"
  shows "fst (payMinimums sa (active, pays, rems)) = active \<and>
         zeroPaid (fst (snd (payMinimums sa (active, pays, rems))))"
  using assms
proof (induction sa arbitrary: pays rems)
  case Nil
  then show ?case by simp
next
  case (Cons i rest)
  define pays' where
    "pays' = setProperty (debt_id (active ! i))
               (jsPlus (getOrZero pays (debt_id (active ! i))) (Num 0)) pays"
  define rems' where "rems' = setProperty (debt_id (active ! i)) (remaining (active ! i)) rems"
  have paid: "min (remaining (active ! i)) (max 0 (minPayment (active ! i))) = 0"
    using Cons.prems(1) by simp
  have step: "payMinimums (i # rest) (active, pays, rems) = payMinimums rest (active, pays', rems')"
    using paid by (simp add: Let_def orZero_id applyPayment_def pays'_def rems'_def)
  have "zeroPaid pays'"
    unfolding pays'_def using Cons.prems(2) by (rule zeroPaid_setProperty)
  then show ?case
    unfolding step using Cons.prems(1) by (intro Cons.IH) simp_all
qed

lemma allActive_pos:
  assumes "stillActive w = [0..<length w]" "j < length w"
  shows "0 < remaining (w ! j)"
proof -
  have "j \<in> set (stillActive w)"
    using assms(2) by (simp only: assms(1)) simp
  then show ?thesis
    by (simp add: set_stillActive)
qed

lemma simulateMonth_zero:
  assumes sim: "simulateMonth 0 mi (stillActive w) w = (month, active')"
    and all: "stillActive w = [0..<length w]"
    and mp: "\<forall>j<length w. minPayment (w ! j) = 0"
  shows "active' = w \<and> zeroMonth w month"
proof -
  let ?sa = "stillActive w"
  have range: "\<forall>i\<in>set ?sa. i < length w"
    by (simp add: set_stillActive)
  have pos: "\<forall>j<length w. 0 \<le> remaining (w ! j)"
    using allActive_pos [OF all] by (auto intro: less_imp_le)
  have z: "\<forall>i\<in>set ?sa. minPayment (w ! i) = 0 \<and> 0 \<le> remaining (w ! i)"
    using mp pos range by simp
  have req: "sum_list (map (\<lambda>i. minPayment (w ! i)) ?sa) = 0"
    using z by (intro sum_list_zero) simp
  have snow: "applySnowball ?sa 0 st = st" for st
    using epsilon_pos by (subst applySnowball.simps) (simp split: prod.splits)
  define st where "st = payMinimums ?sa (w, [], [])"
  have res: "month = \<lparr>monthIndex = mi,
               totalPaid = foldl (\<lambda>sum v. jsPlus sum v) (Num 0) (map snd (fst (snd st))),
               payments = fst (snd st), remainingById = snd (snd st)\<rparr>" "active' = fst st"
    using sim by (simp_all add: simulateMonth_eq req snow st_def Let_def)
  have pm: "fst st = w" "zeroPaid (fst (snd st))"
    using payMinimums_zero [OF z, of "[]" "[]"] by (simp_all add: st_def zeroPaid_def)
  have zp: "zeroPaid (payments month)"
    using pm(2) by (simp add: res(1))
  have inv: "monthInv w ?sa (active', payments month, remainingById month)"
    using simulateMonth_monthInv [OF sim range pos] .
  have keys: "fst ` set (payments month) = (\<lambda>i. debt_id (w ! i)) ` set ?sa - {''__proto__''}"
             "fst ` set (remainingById month) = (\<lambda>i. debt_id (w ! i)) ` set ?sa - {''__proto__''}"
    using simulateMonth_keys [OF sim range pos] by simp_all
  have total: "totalPaid month = Num 0"
    if none: "\<forall>j<length w. debt_id (w ! j) \<notin> set prototypeMethods"
  proof -
    have "v = Num 0" if v: "v \<in> set (map snd (payments month))" for v
    proof -
      obtain k where kv: "(k, v) \<in> set (payments month)"
        using v by auto
      then have "k \<in> fst ` set (payments month)"
        by force
      then obtain i where "i \<in> set ?sa" "k = debt_id (w ! i)"
        unfolding keys by auto
      then have "k \<notin> set prototypeMethods"
        using none range by simp
      then show ?thesis
        using zp kv unfolding zeroPaid_def by blast
    qed
    then have "foldl (\<lambda>sum v. jsPlus sum v) (Num 0) (map snd (payments month)) = Num 0"
      by (intro foldl_jsPlus_zero) simp
    then show ?thesis
      by (simp add: res(1))
  qed
  have paid: "map_of (payments month) (debt_id (w ! j)) = Some (Num 0)"
    if j: "j < length w" and id: "debt_id (w ! j) \<notin> set prototypeMethods \<and>
      debt_id (w ! j) \<noteq> ''__proto__''" for j
  proof -
    have js: "j \<in> set ?sa"
      using j all by simp
    then have "debt_id (w ! j) \<in> fst ` set (payments month)"
      unfolding keys using id by blast
    then obtain p where p: "map_of (payments month) (debt_id (w ! j)) = Some p"
      by (metis map_of_eq_None_iff not_Some_eq)
    then have "(debt_id (w ! j), p) \<in> set (payments month)"
      by (rule map_of_SomeD)
    then have "p = Num 0"
      using zp id unfolding zeroPaid_def by blast
    then show ?thesis
      using p by simp
  qed
  have left: "map_of (remainingById month) (debt_id (w ! j)) = Some (remaining (w ! j))"
    if dist: "distinct (map debt_id w)" and j: "j < length w"
      and id: "debt_id (w ! j) \<noteq> ''__proto__''" for j
  proof -
    have js: "j \<in> set ?sa"
      using j all by simp
    then have "debt_id (w ! j) \<in> fst ` set (remainingById month)"
      unfolding keys using id by blast
    then obtain r where r: "map_of (remainingById month) (debt_id (w ! j)) = Some r"
      by (metis map_of_eq_None_iff not_Some_eq)
    then obtain j' where j': "j' \<in> set ?sa" "debt_id (active' ! j') = debt_id (w ! j)"
        "remaining (active' ! j') = r"
      using inv unfolding monthInv_def recorded_def by auto
    have "j' = j"
      using distinct_ids_index [OF dist j, of j'] j'(1,2) range by (simp add: res(2) pm(1))
    then have "r = remaining (w ! j)"
      using j'(3) by (simp add: res(2) pm(1))
    then show ?thesis
      using r by simp
  qed
  show ?thesis
    using total paid left by (simp add: zeroMonth_def res(2) pm(1))
qed

lemma monthLoop_zero:
  assumes all: "stillActive w = [0..<length w]"
    and mp: "\<forall>j<length w. minPayment (w ! j) = 0"
    and big: "\<exists>j<length w. epsilon < remaining (w ! j)"
    and init: "length months + 1 = mi" "mi \<le> Suc mm" "\<forall>m\<in>set months. zeroMonth w m"
  shows "length (monthLoop 0 mm mi w months) = mm \<and>
         (\<forall>m\<in>set (monthLoop 0 mm mi w months). zeroMonth w m)"
proof (rule monthLoop_rule
    [where w = w
       and I = "\<lambda>mi active months. active = w \<and> length months + 1 = mi \<and> mi \<le> Suc mm \<and>
                  (\<forall>m\<in>set months. zeroMonth w m)"
       and J = "\<lambda>months. length months = mm \<and> (\<forall>m\<in>set months. zeroMonth w m)"])
  show "sameDebts w w"
    by (rule sameDebts_refl)
  show "paidDown w w"
    using allActive_pos [OF all] by (auto simp: paidDown_def intro: less_imp_le)
  show "w = w \<and> length months + 1 = mi \<and> mi \<le> Suc mm \<and> (\<forall>m\<in>set months. zeroMonth w m)"
    using init by simp
next
  fix mi and active active' :: "ActiveDebt list" and months :: "SnowballMonth list"
    and month :: SnowballMonth
  assume I: "active = w \<and> length months + 1 = mi \<and> mi \<le> Suc mm \<and>
             (\<forall>m\<in>set months. zeroMonth w m)"
    and le: "mi \<le> mm"
    and sim: "simulateMonth 0 mi (stillActive active) active = (month, active')"
  have "active' = w \<and> zeroMonth w month"
    using sim I by (intro simulateMonth_zero [OF _ all mp, of mi]) simp
  then show "active' = w \<and> length (months @ [month]) + 1 = Suc mi \<and> Suc mi \<le> Suc mm \<and>
             (\<forall>m\<in>set (months @ [month]). zeroMonth w m)"
    using I le by simp
next
  fix mi and active :: "ActiveDebt list" and months :: "SnowballMonth list"
  assume I: "active = w \<and> length months + 1 = mi \<and> mi \<le> Suc mm \<and>
             (\<forall>m\<in>set months. zeroMonth w m)"
    and fin: "mm < mi \<or> (\<forall>j<length active. remaining (active ! j) \<le> epsilon) \<and>
            (stillActive active = [] \<or> months \<noteq> [])"
  have "\<not> (\<forall>j<length active. remaining (active ! j) \<le> epsilon)"
    using big I by (auto simp: not_le)
  then have "mm < mi"
    using fin by blast
  then show "length months = mm \<and> (\<forall>m\<in>set months. zeroMonth w m)"
    using I by auto
qed

subsection \<open>Sorting by equal keys\<close>

lemma insort_key_cong:
  assumes "f x = g x" "\<forall>y\<in>set ys. f y = g y"
  shows "insort_key f x ys = insort_key g x ys"
  using assms by (induction ys) simp_all

lemma sort_key_cong:
  assumes "\<forall>x\<in>set xs. f x = g x"
  shows "sort_key f xs = sort_key g xs"
  using assms
proof (induction xs)
  case Nil
  show ?case by simp
next
  case (Cons x xs)
  then have "sort_key f xs = sort_key g xs"
    by simp
  moreover have "insort_key f x (sort_key g xs) = insort_key g x (sort_key g xs)"
    using Cons.prems by (intro insort_key_cong) simp_all
  ultimately show ?case
    by (simp add: sort_key_def)
qed

lemma schedule_with_zero:
  "runSnowball [\<lparr>debt_id = ''z'', minPayment = 10, debtAmount = 0\<rparr>,
                \<lparr>debt_id = ''a'', minPayment = 100, debtAmount = 250\<rparr>] 0 600 =
     [\<lparr>monthIndex = 1, totalPaid = Num 100, payments = [(''a'', Num 100)], remainingById = [(''a'', 150)]\<rparr>,
      \<lparr>monthIndex = 2, totalPaid = Num 100, payments = [(''a'', Num 100)], remainingById = [(''a'', 50)]\<rparr>,
      \<lparr>monthIndex = 3, totalPaid = Num 50, payments = [(''a'', Num 50)], remainingById = [(''a'', 0)]\<rparr>]"
  by code_simp

lemma schedule_shared_zero:
  "runSnowball [\<lparr>debt_id = ''x'', minPayment = 0, debtAmount = 0\<rparr>,
                \<lparr>debt_id = ''x'', minPayment = 100, debtAmount = 250\<rparr>] 0 600 =
     [\<lparr>monthIndex = 1, totalPaid = Num 100, payments = [(''x'', Num 100)], remainingById = [(''x'', 150)]\<rparr>,
      \<lparr>monthIndex = 2, totalPaid = Num 100, payments = [(''x'', Num 100)], remainingById = [(''x'', 50)]\<rparr>,
      \<lparr>monthIndex = 3, totalPaid = Num 50, payments = [(''x'', Num 50)], remainingById = [(''x'', 0)]\<rparr>]"
  by code_simp

subsection \<open>The heap refines the values\<close>

lemma toHeap_fields:
  "debt_id (toHeap d) = debt_id d" "minPayment (toHeap d) = minPayment d"
  "debtAmount (toHeap d) = debtAmount d" "readRemaining (toHeap d) = remaining d"
  by (simp_all add: toHeap_def readRemaining_def)

lemma toHeap_update:
  "(toHeap d)\<lparr>remainingProp := Some r\<rparr> = toHeap (d\<lparr>remaining := r\<rparr>)"
  by (simp add: toHeap_def)

lemma onHeap_nth:
  "i < length active \<Longrightarrow> onHeap h0 active ! (length h0 + i) = toHeap (active ! i)"
  by (simp add: onHeap_def nth_append)

lemma onHeap_update:
  "(onHeap h0 active)[length h0 + i := toHeap x] = onHeap h0 (active[i := x])"
  by (simp add: onHeap_def list_update_append map_update)

lemma applyPayment_heap_lift:
  assumes "i < length (fst st)"
  shows "applyPayment_heap (length h0 + i) paid (liftState h0 st) =
         liftState h0 (applyPayment i paid st)"
proof -
  obtain active pays rems where st: "st = (active, pays, rems)"
    by (cases st) auto
  have i: "i < length active"
    using assms st by simp
  show ?thesis
    by (simp add: st liftState_def applyPayment_heap_def applyPayment_def Let_def
        onHeap_nth [OF i] toHeap_fields toHeap_update onHeap_update)
qed

lemma payMinimums_heap_lift:
  assumes "\<forall>i\<in>set sa. i < length (fst st)"
  shows "payMinimums_heap (map ((+) (length h0)) sa) (liftState h0 st) =
         liftState h0 (payMinimums sa st)"
  using assms
proof (induction sa arbitrary: st)
  case Nil
  show ?case by simp
next
  case (Cons i rest)
  obtain active pays rems where st: "st = (active, pays, rems)"
    by (cases st) auto
  define paid where "paid = min (remaining (active ! i)) (max 0 (minPayment (active ! i)))"
  have i: "i < length active"
    using Cons.prems st by simp
  have 1: "payMinimums (i # rest) st = payMinimums rest (applyPayment i paid st)"
    by (simp add: st paid_def Let_def orZero_id)
  have 2: "payMinimums_heap (map ((+) (length h0)) (i # rest)) (liftState h0 st) =
           payMinimums_heap (map ((+) (length h0)) rest)
             (applyPayment_heap (length h0 + i) paid (liftState h0 st))"
    by (simp add: st liftState_def paid_def Let_def orZero_id onHeap_nth [OF i] toHeap_fields)
  have "\<forall>j\<in>set rest. j < length (fst (applyPayment i paid st))"
    using Cons.prems by (simp add: applyPayment_length)
  then have "payMinimums_heap (map ((+) (length h0)) rest) (liftState h0 (applyPayment i paid st)) =
             liftState h0 (payMinimums rest (applyPayment i paid st))"
    by (rule Cons.IH)
  moreover have "applyPayment_heap (length h0 + i) paid (liftState h0 st) =
                 liftState h0 (applyPayment i paid st)"
    using i by (intro applyPayment_heap_lift) (simp add: st)
  ultimately show ?case
    unfolding 1 2 by simp
qed

lemma insort_key_map:
  "insort_key f (g x) (map g ys) = map g (insort_key (\<lambda>y. f (g y)) x ys)"
  by (induction ys) simp_all

lemma sort_key_map:
  "sort_key f (map g xs) = map g (sort_key (\<lambda>y. f (g y)) xs)"
  by (induction xs) (simp_all add: insort_key_map)

lemma candidates_heap:
  assumes "\<forall>i\<in>set sa. i < length active"
  shows "sort_key (\<lambda>a. readRemaining (onHeap h0 active ! a))
           (filter (\<lambda>a. epsilon < readRemaining (onHeap h0 active ! a))
              (map ((+) (length h0)) sa)) =
         map ((+) (length h0))
           (sort_key (\<lambda>i. remaining (active ! i)) (filter (\<lambda>i. epsilon < remaining (active ! i)) sa))"
proof -
  have rem: "readRemaining (onHeap h0 active ! (length h0 + i)) = remaining (active ! i)"
    if "i \<in> set sa" for i
    using assms that by (simp add: onHeap_nth toHeap_fields)
  have "filter (\<lambda>a. epsilon < readRemaining (onHeap h0 active ! a)) (map ((+) (length h0)) sa) =
        map ((+) (length h0)) (filter (\<lambda>i. epsilon < readRemaining (onHeap h0 active ! (length h0 + i))) sa)"
    by (simp add: filter_map o_def)
  also have "filter (\<lambda>i. epsilon < readRemaining (onHeap h0 active ! (length h0 + i))) sa =
        filter (\<lambda>i. epsilon < remaining (active ! i)) sa"
    by (rule filter_cong) (simp_all add: rem)
  finally have f: "filter (\<lambda>a. epsilon < readRemaining (onHeap h0 active ! a)) (map ((+) (length h0)) sa) =
      map ((+) (length h0)) (filter (\<lambda>i. epsilon < remaining (active ! i)) sa)" .
  have "sort_key (\<lambda>i. readRemaining (onHeap h0 active ! (length h0 + i)))
          (filter (\<lambda>i. epsilon < remaining (active ! i)) sa) =
        sort_key (\<lambda>i. remaining (active ! i)) (filter (\<lambda>i. epsilon < remaining (active ! i)) sa)"
    by (rule sort_key_cong) (simp add: rem)
  then show ?thesis
    by (simp add: f sort_key_map)
qed

lemma applySnowball_heap_lift:
  assumes "\<forall>i\<in>set sa. i < length (fst st)"
  shows "applySnowball_heap (map ((+) (length h0)) sa) extra (liftState h0 st) =
         liftState h0 (applySnowball sa extra st)"
  using assms
proof (induction sa extra st rule: applySnowball.induct)
  case (1 sa extra st)
  obtain active pays rems where st: "st = (active, pays, rems)"
    by (cases st) auto
  have range: "\<forall>i\<in>set sa. i < length active"
    using "1.prems" st by simp
  have lst: "liftState h0 st = (onHeap h0 active, pays, rems)"
    by (simp add: st liftState_def)
  note cand = candidates_heap [OF range, of h0]
  show ?case
  proof (cases "epsilon < extra")
    case False
    then show ?thesis
      by (subst applySnowball_heap.simps, subst applySnowball.simps) (simp add: st liftState_def)
  next
    case True
    show ?thesis
    proof (cases "sort_key (\<lambda>i. remaining (active ! i))
                   (filter (\<lambda>i. epsilon < remaining (active ! i)) sa)")
      case Nil
      then show ?thesis
        using True cand
        by (subst applySnowball_heap.simps, subst applySnowball.simps) (simp add: st liftState_def)
    next
      case (Cons t rest)
      have t: "t \<in> set sa"
        using snowball_target [OF Cons] by simp
      then have tl: "t < length active"
        using range by simp
      define paid where "paid = min (remaining (active ! t)) extra"
      have 1: "applySnowball sa extra st = applySnowball sa (extra - paid) (applyPayment t paid st)"
        using True Cons by (subst applySnowball.simps) (simp add: st paid_def Let_def)
      have 2: "applySnowball_heap (map ((+) (length h0)) sa) extra (liftState h0 st) =
               applySnowball_heap (map ((+) (length h0)) sa) (extra - paid)
                 (applyPayment_heap (length h0 + t) paid (liftState h0 st))"
        using True Cons cand
        by (subst applySnowball_heap.simps)
           (simp add: lst paid_def Let_def onHeap_nth [OF tl] toHeap_fields)
      have "\<forall>i\<in>set sa. i < length (fst (applyPayment t paid st))"
        using "1.prems" by (simp add: applyPayment_length)
      then have "applySnowball_heap (map ((+) (length h0)) sa) (extra - paid)
                   (liftState h0 (applyPayment t paid st)) =
                 liftState h0 (applySnowball sa (extra - paid) (applyPayment t paid st))"
        using "1.IH" [OF st [symmetric] refl True Cons refl refl] by (simp add: paid_def st)
      moreover have "applyPayment_heap (length h0 + t) paid (liftState h0 st) =
                     liftState h0 (applyPayment t paid st)"
        using tl by (intro applyPayment_heap_lift) (simp add: st)
      ultimately show ?thesis
        unfolding 1 2 by simp
    qed
  qed
qed

lemma simulateMonth_heap_lift:
  assumes "\<forall>i\<in>set sa. i < length active"
    and "simulateMonth tm mi sa active = (month, active')"
  shows "simulateMonth_heap tm mi (map ((+) (length h0)) sa) (onHeap h0 active) =
         (month, onHeap h0 active')"
proof -
  define extra where "extra = max 0 (tm - sum_list (map (\<lambda>i. minPayment (active ! i)) sa))"
  define st where "st = applySnowball sa extra (payMinimums sa (active, [], []))"
  have "map (\<lambda>a. minPayment (onHeap h0 active ! a)) (map ((+) (length h0)) sa) =
        map (\<lambda>i. minPayment (active ! i)) sa"
    using assms(1) by (simp add: onHeap_nth toHeap_fields)
  then have req: "foldl (\<lambda>sum a. sum + orZero (minPayment (onHeap h0 active ! a))) 0
                    (map ((+) (length h0)) sa) =
                  sum_list (map (\<lambda>i. minPayment (active ! i)) sa)"
    by (simp only: foldl_plus_map orZero_id)
  have "payMinimums_heap (map ((+) (length h0)) sa) (onHeap h0 active, [], []) =
        liftState h0 (payMinimums sa (active, [], []))"
    using payMinimums_heap_lift [of sa "(active, [], [])" h0] assms(1) by (simp add: liftState_def)
  moreover have "\<forall>i\<in>set sa. i < length (fst (payMinimums sa (active, [], [])))"
    using assms(1) by (simp add: payMinimums_length)
  ultimately have c: "applySnowball_heap (map ((+) (length h0)) sa) extra
      (payMinimums_heap (map ((+) (length h0)) sa) (onHeap h0 active, [], [])) = liftState h0 st"
    by (simp add: applySnowball_heap_lift st_def)
  have u: "month = \<lparr>monthIndex = mi,
             totalPaid = foldl (\<lambda>sum v. jsPlus sum v) (Num 0) (map snd (fst (snd st))),
             payments = fst (snd st), remainingById = snd (snd st)\<rparr>" "active' = fst st"
    using assms(2) by (simp_all add: simulateMonth_eq Let_def st_def extra_def)
  have "simulateMonth_heap tm mi (map ((+) (length h0)) sa) (onHeap h0 active) =
        (case liftState h0 st of (h2, pays2, rems2) \<Rightarrow>
           (\<lparr>monthIndex = mi,
              totalPaid = foldl (\<lambda>sum v. jsPlus sum v) (Num 0) (map snd pays2),
              payments = pays2, remainingById = rems2\<rparr>, h2))"
    by (simp only: simulateMonth_heap_def Let_def req extra_def [symmetric] c)
  then show ?thesis
    by (cases st) (simp add: liftState_def u)
qed

lemma upt_shift: "[n..<n + k] = map ((+) n) [0..<k]"
  by (induction k) simp_all

lemma stillActive_heap:
  "filter (\<lambda>a. 0 < readRemaining (onHeap h0 active ! a)) [length h0..<length h0 + length active] =
   map ((+) (length h0)) (stillActive active)"
proof -
  have "filter (\<lambda>i. 0 < readRemaining (onHeap h0 active ! (length h0 + i))) [0..<length active] =
        filter (\<lambda>i. 0 < remaining (active ! i)) [0..<length active]"
    by (rule filter_cong) (simp_all add: onHeap_nth toHeap_fields)
  then show ?thesis
    by (simp add: upt_shift filter_map o_def stillActive_def)
qed

lemma monthLoop_heap_lift:
  "\<exists>active'. length active' = length active \<and>
     monthLoop_heap tm mm mi [length h0..<length h0 + length active] (onHeap h0 active) months =
       (onHeap h0 active', monthLoop tm mm mi active months)"
proof (induction tm mm mi active months rule: monthLoop.induct)
  case (1 tm mm mi active months)
  let ?n = "length h0"
  let ?sa = "stillActive active"
  let ?addrs = "[?n..<?n + length active]"
  note sa = stillActive_heap [of h0 active]
  have range: "\<forall>i\<in>set ?sa. i < length active"
    by (simp add: set_stillActive)
  show ?case
  proof (cases "mi \<le> mm \<and> ?sa \<noteq> []")
    case False
    then have "monthLoop tm mm mi active months = months"
      by (subst monthLoop.simps) auto
    moreover have "monthLoop_heap tm mm mi ?addrs (onHeap h0 active) months = (onHeap h0 active, months)"
      using False by (subst monthLoop_heap.simps) (auto simp: sa)
    ultimately show ?thesis by auto
  next
    case go: True
    obtain month active' where sim: "simulateMonth tm mi ?sa active = (month, active')"
      by (cases "simulateMonth tm mi ?sa active") auto
    have len': "length active' = length active"
      using sim by (rule simulateMonth_length)
    have simh: "simulateMonth_heap tm mi (map ((+) ?n) ?sa) (onHeap h0 active) =
                (month, onHeap h0 active')"
      using simulateMonth_heap_lift [OF range sim] .
    have test: "list_all (\<lambda>a. readRemaining (onHeap h0 active' ! a) \<le> epsilon) (map ((+) ?n) ?sa) =
                list_all (\<lambda>i. remaining (active' ! i) \<le> epsilon) ?sa"
      unfolding list.pred_map using range len'
      by (intro list.pred_cong) (simp_all add: onHeap_nth toHeap_fields)
    show ?thesis
    proof (cases "list_all (\<lambda>i. remaining (active' ! i) \<le> epsilon) ?sa")
      case True
      have "monthLoop tm mm mi active months = months @ [month]"
        using go sim True by (subst monthLoop.simps) (simp add: Let_def)
      moreover have "monthLoop_heap tm mm mi ?addrs (onHeap h0 active) months =
                     (onHeap h0 active', months @ [month])"
        using go simh True test by (subst monthLoop_heap.simps) (simp add: sa Let_def)
      ultimately show ?thesis
        using len' by auto
    next
      case False
      have u: "monthLoop tm mm mi active months = monthLoop tm mm (mi + 1) active' (months @ [month])"
        using go sim False by (subst monthLoop.simps) (simp add: Let_def)
      have h: "monthLoop_heap tm mm mi ?addrs (onHeap h0 active) months =
               monthLoop_heap tm mm (mi + 1) ?addrs (onHeap h0 active') (months @ [month])"
        using go simh False test by (subst monthLoop_heap.simps) (simp add: sa Let_def)
      have "\<exists>a2. length a2 = length active' \<and>
              monthLoop_heap tm mm (mi + 1) [?n..<?n + length active'] (onHeap h0 active')
                (months @ [month]) =
              (onHeap h0 a2, monthLoop tm mm (mi + 1) active' (months @ [month]))"
        using go False by (intro "1.IH" [OF _ refl _ sim [symmetric] refl]) simp_all
      then show ?thesis
        unfolding u h by (simp add: len')
    qed
  qed
qed

lemma runSnowball_heap_refines:
  "\<exists>active'. runSnowball_heap h debts extraPayment maxMonths =
     (h @ map toHeap active',
      runSnowball (map (\<lambda>a. itemOf (h ! a)) debts) extraPayment maxMonths)"
proof -
  let ?f = "filter (\<lambda>a. 0 < debtAmount (h ! a)) debts"
  let ?copies = "map (\<lambda>a. (h ! a)\<lparr>remainingProp := Some (debtAmount (h ! a))\<rparr>) ?f"
  let ?w = "working (map (\<lambda>a. itemOf (h ! a)) debts)"
  have "filter (\<lambda>d. 0 < debtAmount d) (map (\<lambda>a. itemOf (h ! a)) debts) =
        map (\<lambda>a. itemOf (h ! a)) ?f"
    by (simp add: filter_map o_def itemOf_def)
  then have w: "?w = map (\<lambda>a. toActive (itemOf (h ! a))) ?f"
    by (simp add: working_def)
  have copies: "?copies = map toHeap ?w"
    unfolding w by (simp add: toHeap_def toActive_def itemOf_def)
  have h1: "h @ ?copies = onHeap h ?w"
    by (simp add: copies onHeap_def)
  have len: "length ?copies = length ?w"
    by (simp add: copies)
  show ?thesis
  proof (cases "?w = []")
    case True
    then have "runSnowball_heap h debts extraPayment maxMonths = (h @ map toHeap [], [])"
      using len by (simp add: runSnowball_heap_def Let_def)
    then show ?thesis
      using True by (auto simp: runSnowball_eq)
  next
    case False
    let ?addrs = "[length h..<length h + length ?w]"
    have "map (\<lambda>a. minPayment (onHeap h ?w ! a)) ?addrs = map minPayment ?w"
    proof -
      have "map (\<lambda>a. minPayment (onHeap h ?w ! a)) ?addrs =
            map (\<lambda>i. minPayment (onHeap h ?w ! (length h + i))) [0..<length ?w]"
        by (simp add: upt_shift o_def)
      also have "\<dots> = map (\<lambda>i. minPayment (?w ! i)) [0..<length ?w]"
        by (simp add: onHeap_nth toHeap_fields)
      also have "\<dots> = map minPayment (map ((!) ?w) [0..<length ?w])"
        by simp
      also have "map ((!) ?w) [0..<length ?w] = ?w"
        by (rule map_nth)
      finally show ?thesis .
    qed
    then have tm: "foldl (\<lambda>sum a. sum + orZero (minPayment (onHeap h ?w ! a))) 0 ?addrs =
                   sum_list (map minPayment ?w)"
      by (simp add: foldl_plus_map orZero_id)
    have run: "runSnowball_heap h debts extraPayment maxMonths =
               monthLoop_heap (sum_list (map minPayment ?w) + extraPayment) maxMonths 1 ?addrs
                 (onHeap h ?w) []"
      using False len unfolding runSnowball_heap_def Let_def h1 by (simp add: tm)
    obtain a' where "monthLoop_heap (sum_list (map minPayment ?w) + extraPayment) maxMonths 1
        ?addrs (onHeap h ?w) [] =
        (onHeap h a', monthLoop (sum_list (map minPayment ?w) + extraPayment) maxMonths 1 ?w [])"
      using monthLoop_heap_lift [of ?w _ _ _ h "[]"] by blast
    then show ?thesis
      using False by (auto simp: run runSnowball_eq onHeap_def)
  qed
qed

lemma heap_single:
  "runSnowball_heap [\<lparr>debt_id = ''a'', minPayment = 100, debtAmount = 250, remainingProp = None\<rparr>]
     [0] 0 600 =
   ([\<lparr>debt_id = ''a'', minPayment = 100, debtAmount = 250, remainingProp = None\<rparr>,
     \<lparr>debt_id = ''a'', minPayment = 100, debtAmount = 250, remainingProp = Some 0\<rparr>],
    [\<lparr>monthIndex = 1, totalPaid = Num 100, payments = [(''a'', Num 100)], remainingById = [(''a'', 150)]\<rparr>,
     \<lparr>monthIndex = 2, totalPaid = Num 100, payments = [(''a'', Num 100)], remainingById = [(''a'', 50)]\<rparr>,
     \<lparr>monthIndex = 3, totalPaid = Num 50, payments = [(''a'', Num 50)], remainingById = [(''a'', 0)]\<rparr>])"
  by code_simp

section \<open>The properties of the specification\<close>

subsection \<open>Monotonic payoff\<close>

text \<open>
  C2, for inputs whose debts with \<^verbatim>\<open>debtAmount > 0\<close> have pairwise distinct ids. For every such
  debt \<open>d\<close> and every two consecutive emitted months that both have an entry for
  \<^verbatim>\<open>d.id\<close> in \<^verbatim>\<open>remainingById\<close>, the later value is at most the earlier one.
\<close>

theorem monotonic_payoff:
  assumes "distinct (map debt_id (filter (\<lambda>d. 0 < debtAmount d) debts))"
    and "d \<in> set debts" "0 < debtAmount d"
    and "Suc k < length (runSnowball debts extraPayment maxMonths)"
    and "map_of (remainingById (runSnowball debts extraPayment maxMonths ! k)) (debt_id d) = Some r"
    and "map_of (remainingById (runSnowball debts extraPayment maxMonths ! Suc k)) (debt_id d)
           = Some r'"
  shows "r' \<le> r"
proof -
  let ?w = "working debts"
  let ?tm = "sum_list (map minPayment ?w) + extraPayment"
  have run: "runSnowball debts extraPayment maxMonths = monthLoop ?tm maxMonths 1 ?w []"
    using assms(4) by (auto simp: runSnowball_eq split: if_splits)
  have "nonIncreasing (monthLoop ?tm maxMonths 1 ?w [])"
    using assms(1)
    by (intro monthLoop_nonIncreasing [OF sameDebts_refl paidDown_working])
       (simp_all add: working_fields(1) nonIncreasing_def lastBounds_def)
  then show ?thesis
    using assms(4,5,6) unfolding run nonIncreasing_def by blast
qed

theorem monotonic_payoff_witness:
  "map_of (remainingById (runSnowball
     [\<lparr>debt_id = ''a'', minPayment = 10, debtAmount = 50\<rparr>,
      \<lparr>debt_id = ''b'', minPayment = 10, debtAmount = 200\<rparr>] 40 600 ! 0)) ''b'' = Some 190 \<and>
   map_of (remainingById (runSnowball
     [\<lparr>debt_id = ''a'', minPayment = 10, debtAmount = 50\<rparr>,
      \<lparr>debt_id = ''b'', minPayment = 10, debtAmount = 200\<rparr>] 40 600 ! Suc 0)) ''b'' = Some 130 \<and>
   (130 :: rat) \<le> 190"
proof -
  let ?debts = "[\<lparr>debt_id = ''a'', minPayment = 10, debtAmount = 50\<rparr>,
      \<lparr>debt_id = ''b'', minPayment = 10, debtAmount = 200\<rparr>]"
  have d: "distinct (map debt_id (filter (\<lambda>d. 0 < debtAmount d) ?debts))"
    by simp
  have m: "\<lparr>debt_id = ''b'', minPayment = 10, debtAmount = 200\<rparr> \<in> set ?debts"
    and p: "0 < debtAmount \<lparr>debt_id = ''b'', minPayment = 10, debtAmount = 200\<rparr>"
    by simp_all
  have k: "Suc 0 < length (runSnowball ?debts 40 600)"
    by (simp add: schedule_pair)
  have r: "map_of (remainingById (runSnowball ?debts 40 600 ! 0))
             (debt_id \<lparr>debt_id = ''b'', minPayment = 10, debtAmount = 200\<rparr>) = Some 190"
    and r': "map_of (remainingById (runSnowball ?debts 40 600 ! Suc 0))
             (debt_id \<lparr>debt_id = ''b'', minPayment = 10, debtAmount = 200\<rparr>) = Some 130"
    by (simp_all add: schedule_pair)
  show ?thesis
    using monotonic_payoff [OF d m p k r r'] r r' by simp
qed

text \<open>
  Without distinct ids the claim fails: the records are keyed by id, so two debts with the
  same id share one entry, written by whichever of them was paid last. Here the debt of 10
  is cleared in month 1 and leaves the entry at 0; in month 2 only the debt of 100 is still
  active and the entry shows its 70.
\<close>

theorem monotonic_payoff_counterexample:
  "map_of (remainingById (runSnowball
     [\<lparr>debt_id = ''x'', minPayment = 10, debtAmount = 100\<rparr>,
      \<lparr>debt_id = ''x'', minPayment = 10, debtAmount = 10\<rparr>] 0 600 ! 0)) ''x'' = Some 0 \<and>
   map_of (remainingById (runSnowball
     [\<lparr>debt_id = ''x'', minPayment = 10, debtAmount = 100\<rparr>,
      \<lparr>debt_id = ''x'', minPayment = 10, debtAmount = 10\<rparr>] 0 600 ! 1)) ''x'' = Some 70 \<and>
   \<not> (70 :: rat) \<le> 0"
  by (simp add: schedule_same_id)

subsection \<open>Payoff\<close>

text \<open>
  C3, with "exactly 0" replaced by "at most \<^verbatim>\<open>0.000001\<close>", for the debts whose id is not
  \<^verbatim>\<open>__proto__\<close>. When the schedule is shorter than \<^verbatim>\<open>maxMonths\<close> (the cap was
  not hit), every debt with \<^verbatim>\<open>debtAmount > 0\<close> and such an id has an emitted month
  whose \<^verbatim>\<open>remainingById\<close> entry for its id is between 0 and \<^verbatim>\<open>0.000001\<close>; the
  schedule is not empty, and every entry of its last month is between 0 and
  \<^verbatim>\<open>0.000001\<close>: the month in which the last debts get there is the last one emitted.
\<close>

theorem payoff_within_epsilon:
  assumes "length (runSnowball debts extraPayment maxMonths) < maxMonths"
    and "d \<in> set debts" "0 < debtAmount d"
  shows "(debt_id d \<noteq> ''__proto__'' \<longrightarrow>
            (\<exists>m\<in>set (runSnowball debts extraPayment maxMonths).
               \<exists>r. map_of (remainingById m) (debt_id d) = Some r \<and> 0 \<le> r \<and> r \<le> epsilon)) \<and>
         runSnowball debts extraPayment maxMonths \<noteq> [] \<and>
         (\<forall>x r. map_of (remainingById (last (runSnowball debts extraPayment maxMonths))) x = Some r
            \<longrightarrow> 0 \<le> r \<and> r \<le> epsilon)"
proof -
  let ?w = "working debts"
  let ?tm = "sum_list (map minPayment ?w) + extraPayment"
  have "d \<in> set (filter (\<lambda>d. 0 < debtAmount d) debts)"
    using assms(2,3) by simp
  then have id: "debt_id d \<in> debt_id ` set ?w"
    using arg_cong [OF working_fields(1) [of debts], of set] by (metis image_eqI image_set)
  then have ne: "?w \<noteq> []"
    by auto
  then have run: "runSnowball debts extraPayment maxMonths = monthLoop ?tm maxMonths 1 ?w []"
    by (simp add: runSnowball_eq)
  have pos: "\<forall>j<length ?w. 0 < remaining (?w ! j)"
    by (simp add: working_remaining_pos)
  have "settled ?w ?w []"
    unfolding settled_def using pos by (auto simp: not_le [symmetric])
  moreover have "lastRecorded ?w ?w []"
    by (simp add: lastRecorded_def)
  moreover have "stillActive ?w \<noteq> []"
    using ne by (simp add: stillActive_working)
  ultimately have "length (monthLoop ?tm maxMonths 1 ?w []) < maxMonths \<longrightarrow>
      paidOff ?w (monthLoop ?tm maxMonths 1 ?w [])"
    by (intro monthLoop_paidOff [OF sameDebts_refl paidDown_working]) simp_all
  then have "paidOff ?w (runSnowball debts extraPayment maxMonths)"
    using assms(1) by (simp add: run)
  then show ?thesis
    using id unfolding paidOff_def by blast
qed

theorem payoff_within_epsilon_witness:
  "runSnowball [\<lparr>debt_id = ''a'', minPayment = 100, debtAmount = 250\<rparr>] 0 600 \<noteq> [] \<and>
   map_of (remainingById (last (runSnowball
     [\<lparr>debt_id = ''a'', minPayment = 100, debtAmount = 250\<rparr>] 0 600))) ''a'' = Some 0 \<and>
   (0 :: rat) \<le> epsilon"
proof -
  let ?debts = "[\<lparr>debt_id = ''a'', minPayment = 100, debtAmount = 250\<rparr>]"
  have l: "length (runSnowball ?debts 0 600) < 600"
    by (simp add: schedule_single)
  have m: "\<lparr>debt_id = ''a'', minPayment = 100, debtAmount = 250\<rparr> \<in> set ?debts"
    and p: "0 < debtAmount \<lparr>debt_id = ''a'', minPayment = 100, debtAmount = 250\<rparr>"
    by simp_all
  have "map_of (remainingById (last (runSnowball ?debts 0 600))) ''a'' = Some 0"
    by (simp add: schedule_single)
  then show ?thesis
    using payoff_within_epsilon [OF l m p] by blast
qed

text \<open>
  The loop stops as soon as every still active debt is at most \<^verbatim>\<open>0.000001\<close>, and the
  snowball pass does not pay a debt that is at most \<^verbatim>\<open>0.000001\<close>, so a balance can stay
  just above 0. A debt of \<open>100 + 2\<^sup>-\<^sup>2\<^sup>1\<close> (a double) paid with 100 a month: the schedule
  ends after month 1, far from the cap, with \<open>2\<^sup>-\<^sup>2\<^sup>1\<close> remaining, and no month shows 0
  (first schedule). A debt whose id is \<^verbatim>\<open>__proto__\<close> never gets an entry: the
  assignments to \<^verbatim>\<open>remainingById[debt.id]\<close> and \<^verbatim>\<open>payments[debt.id]\<close> are
  ignored, so the debt of the single-debt example is paid off in three months whose records
  are all empty, and whose \<^verbatim>\<open>totalPaid\<close> is 0 (second schedule).
\<close>

theorem payoff_counterexample:
  "runSnowball [\<lparr>debt_id = ''a'', minPayment = 0, debtAmount = 100 + 1 / 2097152\<rparr>] 100
     defaultMaxMonths =
     [\<lparr>monthIndex = 1, totalPaid = Num 100, payments = [(''a'', Num 100)],
        remainingById = [(''a'', 1 / 2097152)]\<rparr>] \<and>
   runSnowball [\<lparr>debt_id = ''__proto__'', minPayment = 100, debtAmount = 250\<rparr>] 0
     defaultMaxMonths =
     [\<lparr>monthIndex = 1, totalPaid = Num 0, payments = [], remainingById = []\<rparr>,
      \<lparr>monthIndex = 2, totalPaid = Num 0, payments = [], remainingById = []\<rparr>,
      \<lparr>monthIndex = 3, totalPaid = Num 0, payments = [], remainingById = []\<rparr>]"
  by code_simp

subsection \<open>Snowball ordering\<close>

text \<open>
  C4. For the debts a (minimum 10, balance 50) and b (minimum 10, balance 200) with 40 extra,
  month 1 pays 50 to a and 10 to b and leaves 0 and 190. The months in which a is at 0 are
  [1]; the months in which b is paid more than its minimum of 10 are [2, 3, 4]: a is
  cleared strictly before b gets more than its minimum.
\<close>

theorem snowball_ordering:
  "payments (runSnowball [\<lparr>debt_id = ''a'', minPayment = 10, debtAmount = 50\<rparr>,
       \<lparr>debt_id = ''b'', minPayment = 10, debtAmount = 200\<rparr>] 40 defaultMaxMonths ! 0) =
     [(''a'', Num 50), (''b'', Num 10)] \<and>
   remainingById (runSnowball [\<lparr>debt_id = ''a'', minPayment = 10, debtAmount = 50\<rparr>,
       \<lparr>debt_id = ''b'', minPayment = 10, debtAmount = 200\<rparr>] 40 defaultMaxMonths ! 0) =
     [(''a'', 0), (''b'', 190)] \<and>
   map monthIndex (filter (\<lambda>m. map_of (remainingById m) ''a'' = Some 0)
     (runSnowball [\<lparr>debt_id = ''a'', minPayment = 10, debtAmount = 50\<rparr>,
       \<lparr>debt_id = ''b'', minPayment = 10, debtAmount = 200\<rparr>] 40 defaultMaxMonths)) = [1] \<and>
   map monthIndex (filter (\<lambda>m. case map_of (payments m) ''b'' of Some (Num p) \<Rightarrow> 10 < p | _ \<Rightarrow> False)
     (runSnowball [\<lparr>debt_id = ''a'', minPayment = 10, debtAmount = 50\<rparr>,
       \<lparr>debt_id = ''b'', minPayment = 10, debtAmount = 200\<rparr>] 40 defaultMaxMonths)) = [2, 3, 4]"
  unfolding defaultMaxMonths_def schedule_pair by simp

subsection \<open>Negative inputs\<close>

text \<open>
  C5 at two inputs. \<^const>\<open>runSnowball\<close> is total, so a negative \<^verbatim>\<open>minPayment\<close> or
  \<^verbatim>\<open>extraPayment\<close> cannot make it fail; but the schedule is not the one of the clamped
  input (each negative \<^verbatim>\<open>minPayment\<close> and a negative \<^verbatim>\<open>extraPayment\<close> replaced
  by 0). The minimum-payment pass pays \<^verbatim>\<open>Math.max(0, debt.minPayment || 0)\<close> and the
  extra of a month is \<^verbatim>\<open>Math.max(0, totalMonthly - requiredMin)\<close>, while the two sums
  \<^verbatim>\<open>totalMonthly\<close> and \<^verbatim>\<open>requiredMin\<close> add the minimums and
  \<^verbatim>\<open>extraPayment\<close> as they are given. With debts a (minimum -10, balance 10) and b
  (minimum 0, balance 100) and 20 extra, \<^verbatim>\<open>totalMonthly\<close> is 10: month 1 is the month of
  the clamped input (a is cleared, b is left at 90), but once a is gone \<^verbatim>\<open>requiredMin\<close>
  is 0 and the extra is 10 where the clamped input has 20, so month 2 leaves b at 80 instead of
  70 and the schedule has 10 months instead of 6. With debts a (10, 10) and b (10, 100) and
  \<^verbatim>\<open>extraPayment = -5\<close>, month 2 leaves b at 75 where the clamped input leaves 70.
\<close>

theorem negative_inputs_not_clamped:
  "remainingById (runSnowball [\<lparr>debt_id = ''a'', minPayment = - 10, debtAmount = 10\<rparr>,
      \<lparr>debt_id = ''b'', minPayment = 0, debtAmount = 100\<rparr>] 20 defaultMaxMonths ! 1) =
     [(''b'', 80)] \<and>
   remainingById (runSnowball (map clampDebt [\<lparr>debt_id = ''a'', minPayment = - 10, debtAmount = 10\<rparr>,
      \<lparr>debt_id = ''b'', minPayment = 0, debtAmount = 100\<rparr>]) (max 0 20) defaultMaxMonths ! 1) =
     [(''b'', 70)] \<and>
   length (runSnowball [\<lparr>debt_id = ''a'', minPayment = - 10, debtAmount = 10\<rparr>,
      \<lparr>debt_id = ''b'', minPayment = 0, debtAmount = 100\<rparr>] 20 defaultMaxMonths) = 10 \<and>
   length (runSnowball (map clampDebt [\<lparr>debt_id = ''a'', minPayment = - 10, debtAmount = 10\<rparr>,
      \<lparr>debt_id = ''b'', minPayment = 0, debtAmount = 100\<rparr>]) (max 0 20) defaultMaxMonths) = 6 \<and>
   remainingById (runSnowball [\<lparr>debt_id = ''a'', minPayment = 10, debtAmount = 10\<rparr>,
      \<lparr>debt_id = ''b'', minPayment = 10, debtAmount = 100\<rparr>] (- 5) defaultMaxMonths ! 1) =
     [(''b'', 75)] \<and>
   remainingById (runSnowball (map clampDebt [\<lparr>debt_id = ''a'', minPayment = 10, debtAmount = 10\<rparr>,
      \<lparr>debt_id = ''b'', minPayment = 10, debtAmount = 100\<rparr>]) (max 0 (- 5)) defaultMaxMonths ! 1) =
     [(''b'', 70)]"
  by code_simp

subsection \<open>Debts without a balance\<close>

text \<open>
  C6, stated on the keys. Every key of \<^verbatim>\<open>payments\<close> and of \<^verbatim>\<open>remainingById\<close> in every
  emitted month is the id of a debt with \<^verbatim>\<open>debtAmount > 0\<close>: a debt with
  \<^verbatim>\<open>debtAmount <= 0\<close> is a key only when a debt with a positive balance has the same id,
  so never when ids are pairwise distinct. When no debt has \<^verbatim>\<open>debtAmount > 0\<close> (the empty
  list included) the schedule is empty.
\<close>

theorem excluded_debts:
  "(m \<in> set (runSnowball debts extraPayment maxMonths) \<longrightarrow>
      fst ` set (payments m) \<subseteq> debt_id ` {d \<in> set debts. 0 < debtAmount d} \<and>
      fst ` set (remainingById m) \<subseteq> debt_id ` {d \<in> set debts. 0 < debtAmount d}) \<and>
   ((\<forall>d\<in>set debts. debtAmount d \<le> 0) \<longrightarrow> runSnowball debts extraPayment maxMonths = [])"
proof (intro conjI impI)
  assume "\<forall>d\<in>set debts. debtAmount d \<le> 0"
  then have "filter (\<lambda>d. 0 < debtAmount d) debts = []"
    by (auto simp: filter_empty_conv)
  then show "runSnowball debts extraPayment maxMonths = []"
    by (simp add: runSnowball_eq working_def)
next
  let ?w = "working debts"
  let ?tm = "sum_list (map minPayment ?w) + extraPayment"
  assume m: "m \<in> set (runSnowball debts extraPayment maxMonths)"
  then have "m \<in> set (monthLoop ?tm maxMonths 1 ?w [])"
    by (auto simp: runSnowball_eq split: if_splits)
  moreover have "\<forall>m\<in>set (monthLoop ?tm maxMonths 1 ?w []).
           fst ` set (payments m) \<subseteq> debt_id ` set ?w \<and>
           fst ` set (remainingById m) \<subseteq> debt_id ` set ?w"
    by (intro monthLoop_keys [OF sameDebts_refl paidDown_working]) simp
  moreover have "debt_id ` set ?w = debt_id ` {d \<in> set debts. 0 < debtAmount d}"
    using arg_cong [OF working_fields(1) [of debts], of set] by simp
  ultimately show "fst ` set (payments m) \<subseteq> debt_id ` {d \<in> set debts. 0 < debtAmount d}"
    and "fst ` set (remainingById m) \<subseteq> debt_id ` {d \<in> set debts. 0 < debtAmount d}"
    by auto
qed

theorem excluded_debts_witness:
  "''z'' \<notin> fst ` set (payments (runSnowball
      [\<lparr>debt_id = ''z'', minPayment = 10, debtAmount = 0\<rparr>,
       \<lparr>debt_id = ''a'', minPayment = 100, debtAmount = 250\<rparr>] 0 600 ! 0)) \<and>
   runSnowball [\<lparr>debt_id = ''z'', minPayment = 10, debtAmount = 0\<rparr>] 5 600 = []"
proof -
  let ?debts = "[\<lparr>debt_id = ''z'', minPayment = 10, debtAmount = 0\<rparr>,
       \<lparr>debt_id = ''a'', minPayment = 100, debtAmount = 250\<rparr>]"
  have "runSnowball ?debts 0 600 ! 0 \<in> set (runSnowball ?debts 0 600)"
    by (simp add: schedule_with_zero)
  then have "fst ` set (payments (runSnowball ?debts 0 600 ! 0))
      \<subseteq> debt_id ` {d \<in> set ?debts. 0 < debtAmount d}"
    using excluded_debts [of "runSnowball ?debts 0 600 ! 0" ?debts 0 600] by blast
  moreover have "''z'' \<notin> debt_id ` {d \<in> set ?debts. 0 < debtAmount d}"
    by auto
  moreover have "runSnowball [\<lparr>debt_id = ''z'', minPayment = 10, debtAmount = 0\<rparr>] 5 600 = []"
    using excluded_debts [where debts = "[\<lparr>debt_id = ''z'', minPayment = 10, debtAmount = 0\<rparr>]"
        and extraPayment = 5 and maxMonths = 600
        and m = "\<lparr>monthIndex = 1, totalPaid = Num 0, payments = [], remainingById = []\<rparr>"]
    by simp
  ultimately show ?thesis
    by blast
qed

text \<open>
  As the claim is worded (no debt with \<^verbatim>\<open>debtAmount <= 0\<close> is ever a key) it fails when
  such a debt shares its id with a debt that has a balance: the first debt below has
  \<^verbatim>\<open>debtAmount = 0\<close> and its id is a key of \<^verbatim>\<open>payments\<close> in month 1.
\<close>

theorem excluded_debts_counterexample:
  "debtAmount \<lparr>debt_id = ''x'', minPayment = 0, debtAmount = 0\<rparr> \<le> 0 \<and>
   debt_id \<lparr>debt_id = ''x'', minPayment = 0, debtAmount = 0\<rparr> \<in>
     fst ` set (payments (runSnowball
       [\<lparr>debt_id = ''x'', minPayment = 0, debtAmount = 0\<rparr>,
        \<lparr>debt_id = ''x'', minPayment = 100, debtAmount = 250\<rparr>] 0 600 ! 0))"
  by (simp add: schedule_shared_zero)

subsection \<open>Single debt\<close>

text \<open>
  C7. One debt of 250 with a minimum of 100 and no extra: three months, with 150, 50 and 0
  remaining and payments of 100, 100 and 50.
\<close>

theorem single_debt_exact_payoff:
  "runSnowball [\<lparr>debt_id = ''a'', minPayment = 100, debtAmount = 250\<rparr>] 0 defaultMaxMonths =
     [\<lparr>monthIndex = 1, totalPaid = Num 100, payments = [(''a'', Num 100)], remainingById = [(''a'', 150)]\<rparr>,
      \<lparr>monthIndex = 2, totalPaid = Num 100, payments = [(''a'', Num 100)], remainingById = [(''a'', 50)]\<rparr>,
      \<lparr>monthIndex = 3, totalPaid = Num 50, payments = [(''a'', Num 50)], remainingById = [(''a'', 0)]\<rparr>]"
  by (simp only: defaultMaxMonths_def schedule_single)

subsection \<open>Termination\<close>

text \<open>
  C8. \<^const>\<open>runSnowball\<close> is a total function: both loops are defined with a proof of
  termination (the snowball pass pays more than \<^verbatim>\<open>0.000001\<close> in each turn, the loop over
  the months counts up to \<^verbatim>\<open>maxMonths\<close>). The schedule has at most \<^verbatim>\<open>maxMonths\<close>
  months (at most 600 with the default), and the \<^verbatim>\<open>monthIndex\<close> values are 1, 2, ... up to
  its length, in this order.
\<close>

theorem bounded_termination:
  "length (runSnowball debts extraPayment maxMonths) \<le> maxMonths \<and>
   map monthIndex (runSnowball debts extraPayment maxMonths) =
     [1..<Suc (length (runSnowball debts extraPayment maxMonths))] \<and>
   length (runSnowball debts extraPayment defaultMaxMonths) \<le> 600"
proof -
  have "length (runSnowball debts extraPayment mm) \<le> mm \<and>
        map monthIndex (runSnowball debts extraPayment mm) =
          [1..<Suc (length (runSnowball debts extraPayment mm))]" for mm
  proof (cases "working debts = []")
    case True
    then show ?thesis by (simp add: runSnowball_eq)
  next
    case False
    then show ?thesis
      using monthLoop_indices [OF sameDebts_refl paidDown_working, of "[]" 1 mm]
      by (simp add: runSnowball_eq)
  qed
  from this [of maxMonths] this [of defaultMaxMonths] show ?thesis
    by (simp add: defaultMaxMonths_def)
qed

subsection \<open>Determinism and purity\<close>

text \<open>
  C9, on the heap. The debts are objects on a heap \<open>h\<close> and \<^verbatim>\<open>debts\<close> holds their
  addresses. A call leaves every object that was on the heap as it was, fields and all (the
  heap it returns starts with \<open>h\<close>: the copies are new objects, and only they are written);
  a second call with the same arguments, on the heap that the first call left, returns the
  same schedule; and the schedule is the one \<^const>\<open>runSnowball\<close> computes from the values of
  the debts, so it depends on nothing but the fields of the debts,
  \<^verbatim>\<open>extraPayment\<close> and \<^verbatim>\<open>maxMonths\<close>.
\<close>

theorem deterministic_and_pure:
  assumes "\<forall>a\<in>set debts. a < length h"
  shows "snd (runSnowball_heap (fst (runSnowball_heap h debts extraPayment maxMonths))
              debts extraPayment maxMonths) =
         snd (runSnowball_heap h debts extraPayment maxMonths) \<and>
         take (length h) (fst (runSnowball_heap h debts extraPayment maxMonths)) = h \<and>
         snd (runSnowball_heap h debts extraPayment maxMonths) =
           runSnowball (map (\<lambda>a. itemOf (h ! a)) debts) extraPayment maxMonths"
proof -
  obtain a1 where r1: "runSnowball_heap h debts extraPayment maxMonths =
      (h @ map toHeap a1, runSnowball (map (\<lambda>a. itemOf (h ! a)) debts) extraPayment maxMonths)"
    using runSnowball_heap_refines by blast
  let ?h' = "h @ map toHeap a1"
  obtain a2 where r2: "runSnowball_heap ?h' debts extraPayment maxMonths =
      (?h' @ map toHeap a2, runSnowball (map (\<lambda>a. itemOf (?h' ! a)) debts) extraPayment maxMonths)"
    using runSnowball_heap_refines by blast
  have m: "map (\<lambda>a. itemOf (?h' ! a)) debts = map (\<lambda>a. itemOf (h ! a)) debts"
    using assms by (simp add: nth_append)
  show ?thesis
    unfolding r1 fst_conv snd_conv r2 m by simp
qed

theorem deterministic_and_pure_witness:
  "snd (runSnowball_heap
     [\<lparr>debt_id = ''a'', minPayment = 100, debtAmount = 250, remainingProp = None\<rparr>,
      \<lparr>debt_id = ''a'', minPayment = 100, debtAmount = 250, remainingProp = Some 0\<rparr>]
     [0] 0 600) =
   [\<lparr>monthIndex = 1, totalPaid = Num 100, payments = [(''a'', Num 100)], remainingById = [(''a'', 150)]\<rparr>,
    \<lparr>monthIndex = 2, totalPaid = Num 100, payments = [(''a'', Num 100)], remainingById = [(''a'', 50)]\<rparr>,
    \<lparr>monthIndex = 3, totalPaid = Num 50, payments = [(''a'', Num 50)], remainingById = [(''a'', 0)]\<rparr>]"
proof -
  let ?h = "[\<lparr>debt_id = ''a'', minPayment = 100, debtAmount = 250, remainingProp = None\<rparr>]"
  have "\<forall>a\<in>set [0]. a < length ?h"
    by simp
  from deterministic_and_pure [OF this, of 0 600] show ?thesis
    by (simp add: heap_single)
qed

subsection \<open>No budget\<close>

text \<open>
  C10, for inputs where some debt has \<^verbatim>\<open>debtAmount > 0.000001\<close>. When all debts with
  \<^verbatim>\<open>debtAmount > 0\<close> have \<^verbatim>\<open>minPayment = 0\<close> and \<^verbatim>\<open>extraPayment\<close> is 0,
  the schedule has exactly \<^verbatim>\<open>maxMonths\<close> months, and in each month:
  \<^verbatim>\<open>totalPaid\<close> is 0, unless the id of one of these debts is the name of a function of
  \<^verbatim>\<open>Object.prototype\<close>; every such debt whose id is not the name of a member of
  \<^verbatim>\<open>Object.prototype\<close> is paid 0; and, when the ids of these debts are pairwise
  distinct, \<^verbatim>\<open>remainingById\<close> holds the \<^verbatim>\<open>debtAmount\<close> of every such debt whose
  id is not \<^verbatim>\<open>__proto__\<close>.
\<close>

theorem zero_budget:
  assumes "\<forall>d\<in>set debts. 0 < debtAmount d \<longrightarrow> minPayment d = 0"
    and "\<exists>d\<in>set debts. epsilon < debtAmount d"
  shows "length (runSnowball debts 0 maxMonths) = maxMonths \<and>
         (\<forall>m\<in>set (runSnowball debts 0 maxMonths).
            ((\<forall>d\<in>set debts. 0 < debtAmount d \<longrightarrow> debt_id d \<notin> set prototypeMethods) \<longrightarrow>
               totalPaid m = Num 0) \<and>
            (\<forall>d\<in>set debts. 0 < debtAmount d \<and> debt_id d \<notin> set prototypeMethods \<and>
               debt_id d \<noteq> ''__proto__'' \<longrightarrow>
               map_of (payments m) (debt_id d) = Some (Num 0)) \<and>
            (distinct (map debt_id (filter (\<lambda>d. 0 < debtAmount d) debts)) \<longrightarrow>
               (\<forall>d\<in>set debts. 0 < debtAmount d \<and> debt_id d \<noteq> ''__proto__'' \<longrightarrow>
                  map_of (remainingById m) (debt_id d) = Some (debtAmount d))))"
proof -
  let ?f = "filter (\<lambda>d. 0 < debtAmount d) debts"
  let ?w = "working debts"
  have len: "length ?w = length ?f"
    by (simp add: working_def)
  have fields: "debt_id (?w ! j) = debt_id (?f ! j)" "minPayment (?w ! j) = minPayment (?f ! j)"
      "remaining (?w ! j) = debtAmount (?f ! j)" if "j < length ?f" for j
    using that by (simp_all add: working_def toActive_def)
  have member: "?f ! j \<in> set debts \<and> 0 < debtAmount (?f ! j)" if "j < length ?f" for j
  proof -
    have "?f ! j \<in> set ?f"
      using that by (rule nth_mem)
    then show ?thesis
      by simp
  qed
  have index: "\<exists>j<length ?f. ?f ! j = d" if "d \<in> set debts" "0 < debtAmount d" for d
  proof -
    have "d \<in> set ?f"
      using that by simp
    then show ?thesis
      using in_set_conv_nth [of d ?f] by blast
  qed
  have mp: "\<forall>j<length ?w. minPayment (?w ! j) = 0"
    using assms(1) member len by (simp add: fields)
  obtain d where d: "d \<in> set debts" "epsilon < debtAmount d"
    using assms(2) by blast
  then have "0 < debtAmount d"
    using epsilon_pos by simp
  then obtain j where j: "j < length ?f" "?f ! j = d"
    using index d(1) by blast
  then have big: "\<exists>j<length ?w. epsilon < remaining (?w ! j)"
    using d(2) len by (auto simp: fields)
  then have ne: "?w \<noteq> []"
    by auto
  have sum0: "sum_list (map minPayment ?w) = 0"
    using mp by (intro sum_list_zero) (auto simp: in_set_conv_nth)
  have run: "runSnowball debts 0 maxMonths = monthLoop 0 maxMonths 1 ?w []"
    using ne by (simp add: runSnowball_eq sum0)
  have loop: "length (monthLoop 0 maxMonths 1 ?w []) = maxMonths \<and>
        (\<forall>m\<in>set (monthLoop 0 maxMonths 1 ?w []). zeroMonth ?w m)"
    by (intro monthLoop_zero [OF stillActive_working mp big]) simp_all
  have month: "((\<forall>d\<in>set debts. 0 < debtAmount d \<longrightarrow> debt_id d \<notin> set prototypeMethods) \<longrightarrow>
               totalPaid m = Num 0) \<and>
            (\<forall>d\<in>set debts. 0 < debtAmount d \<and> debt_id d \<notin> set prototypeMethods \<and>
               debt_id d \<noteq> ''__proto__'' \<longrightarrow>
               map_of (payments m) (debt_id d) = Some (Num 0)) \<and>
            (distinct (map debt_id ?f) \<longrightarrow>
               (\<forall>d\<in>set debts. 0 < debtAmount d \<and> debt_id d \<noteq> ''__proto__'' \<longrightarrow>
                  map_of (remainingById m) (debt_id d) = Some (debtAmount d)))"
    if m: "zeroMonth ?w m" for m
  proof (intro conjI impI ballI)
    assume "\<forall>d\<in>set debts. 0 < debtAmount d \<longrightarrow> debt_id d \<notin> set prototypeMethods"
    then have "\<forall>j<length ?w. debt_id (?w ! j) \<notin> set prototypeMethods"
      using member len by (simp add: fields)
    then show "totalPaid m = Num 0"
      using m unfolding zeroMonth_def by blast
  next
    fix d
    assume d: "d \<in> set debts" "0 < debtAmount d \<and> debt_id d \<notin> set prototypeMethods \<and>
               debt_id d \<noteq> ''__proto__''"
    then obtain j where j: "j < length ?f" "?f ! j = d"
      using index by blast
    then have "debt_id (?w ! j) \<notin> set prototypeMethods \<and> debt_id (?w ! j) \<noteq> ''__proto__''"
      using d(2) by (simp add: fields)
    then have "map_of (payments m) (debt_id (?w ! j)) = Some (Num 0)"
      using m j(1) len unfolding zeroMonth_def by simp
    then show "map_of (payments m) (debt_id d) = Some (Num 0)"
      using j by (simp add: fields)
  next
    fix d
    assume dist: "distinct (map debt_id ?f)"
      and d: "d \<in> set debts" "0 < debtAmount d \<and> debt_id d \<noteq> ''__proto__''"
    then obtain j where j: "j < length ?f" "?f ! j = d"
      using index by blast
    have "distinct (map debt_id ?w)"
      using dist by (simp add: working_fields(1))
    moreover have "debt_id (?w ! j) \<noteq> ''__proto__''"
      using d(2) j by (simp add: fields)
    ultimately have "map_of (remainingById m) (debt_id (?w ! j)) = Some (remaining (?w ! j))"
      using m j(1) len unfolding zeroMonth_def by simp
    then show "map_of (remainingById m) (debt_id d) = Some (debtAmount d)"
      using j by (simp add: fields)
  qed
  show ?thesis
    unfolding run using loop month by blast
qed

theorem zero_budget_witness:
  "length (runSnowball [\<lparr>debt_id = ''a'', minPayment = 0, debtAmount = 5\<rparr>] 0 defaultMaxMonths) = 600 \<and>
   totalPaid (runSnowball [\<lparr>debt_id = ''a'', minPayment = 0, debtAmount = 5\<rparr>] 0 2 ! 1) = Num 0 \<and>
   map_of (payments (runSnowball [\<lparr>debt_id = ''a'', minPayment = 0, debtAmount = 5\<rparr>] 0 2 ! 1))
     ''a'' = Some (Num 0) \<and>
   map_of (remainingById (runSnowball [\<lparr>debt_id = ''a'', minPayment = 0, debtAmount = 5\<rparr>] 0 2 ! 1))
     ''a'' = Some 5"
proof -
  let ?debts = "[\<lparr>debt_id = ''a'', minPayment = 0, debtAmount = 5\<rparr>]"
  have mins: "\<forall>d\<in>set ?debts. 0 < debtAmount d \<longrightarrow> minPayment d = 0"
    and big: "\<exists>d\<in>set ?debts. epsilon < debtAmount d"
    by (simp_all add: epsilon_def)
  have len: "length (runSnowball ?debts 0 defaultMaxMonths) = 600"
    using zero_budget [OF mins big, of defaultMaxMonths] by (simp add: defaultMaxMonths_def)
  have "length (runSnowball ?debts 0 2) = 2"
    using zero_budget [OF mins big, of 2] by simp
  then have m: "runSnowball ?debts 0 2 ! 1 \<in> set (runSnowball ?debts 0 2)"
    by simp
  have ids: "\<forall>d\<in>set ?debts. 0 < debtAmount d \<longrightarrow> debt_id d \<notin> set prototypeMethods"
    by (simp add: prototypeMethods_def)
  have dist: "distinct (map debt_id (filter (\<lambda>d. 0 < debtAmount d) ?debts))"
    by simp
  have "totalPaid (runSnowball ?debts 0 2 ! 1) = Num 0"
    using zero_budget [OF mins big, of 2] m ids by blast
  moreover have "map_of (payments (runSnowball ?debts 0 2 ! 1)) ''a'' = Some (Num 0)"
    using zero_budget [OF mins big, of 2] m by (simp add: prototypeMethods_def)
  moreover have "map_of (remainingById (runSnowball ?debts 0 2 ! 1)) ''a'' = Some 5"
    using zero_budget [OF mins big, of 2] m dist by simp
  ultimately show ?thesis
    using len by simp
qed

text \<open>
  When every debt is at most \<^verbatim>\<open>0.000001\<close> the loop stops after the first month, whatever
  \<^verbatim>\<open>maxMonths\<close> is (first schedule: one month, not 600). When two debts share an id,
  \<^verbatim>\<open>remainingById\<close> has one entry for both, the amount of the later one (second schedule:
  3, while the first debt owes 5); the length, \<^verbatim>\<open>totalPaid\<close> and the payments are as
  claimed. When the id of a debt is \<^verbatim>\<open>constructor\<close>,
  \<^verbatim>\<open>payments[debt.id] || 0\<close> is the inherited function, and the payment and
  \<^verbatim>\<open>totalPaid\<close> are strings (third schedule). When the id is \<^verbatim>\<open>__proto__\<close>
  neither record gets an entry (fourth schedule).
\<close>

theorem zero_budget_counterexample:
  "runSnowball [\<lparr>debt_id = ''a'', minPayment = 0, debtAmount = 1 / 2097152\<rparr>] 0 defaultMaxMonths =
     [\<lparr>monthIndex = 1, totalPaid = Num 0, payments = [(''a'', Num 0)],
        remainingById = [(''a'', 1 / 2097152)]\<rparr>] \<and>
   runSnowball [\<lparr>debt_id = ''x'', minPayment = 0, debtAmount = 5\<rparr>,
                \<lparr>debt_id = ''x'', minPayment = 0, debtAmount = 3\<rparr>] 0 2 =
     [\<lparr>monthIndex = 1, totalPaid = Num 0, payments = [(''x'', Num 0)], remainingById = [(''x'', 3)]\<rparr>,
      \<lparr>monthIndex = 2, totalPaid = Num 0, payments = [(''x'', Num 0)], remainingById = [(''x'', 3)]\<rparr>] \<and>
   runSnowball [\<lparr>debt_id = ''constructor'', minPayment = 0, debtAmount = 5\<rparr>] 0 2 =
     [\<lparr>monthIndex = 1, totalPaid = NonNumber, payments = [(''constructor'', NonNumber)],
        remainingById = [(''constructor'', 5)]\<rparr>,
      \<lparr>monthIndex = 2, totalPaid = NonNumber, payments = [(''constructor'', NonNumber)],
        remainingById = [(''constructor'', 5)]\<rparr>] \<and>
   runSnowball [\<lparr>debt_id = ''__proto__'', minPayment = 0, debtAmount = 5\<rparr>] 0 2 =
     [\<lparr>monthIndex = 1, totalPaid = Num 0, payments = [], remainingById = []\<rparr>,
      \<lparr>monthIndex = 2, totalPaid = Num 0, payments = [], remainingById = []\<rparr>]"
  by code_simp

end
